theory Spec2Isabelle
  imports Complex_Main "HOL-Library.Multiset"
begin

section \<open>Reconciler: \<open>process_search_folders\<close> (process-OptionB-search_results.py)\<close>

text \<open>
  An artwork is a JSON object; only its \<open>art_id\<close> entry is read
  (\<open>artwork.get("art_id")\<close>, which is \<open>None\<close> when the key is absent). The rest of the
  object is an opaque payload.
\<close>

datatype 'p artwork = Artwork (get_art_id: "int option") (payload: 'p)

text \<open>
  The two dictionaries built by the loop: \<open>unique_artworks\<close> and the
  \<open>defaultdict(list)\<close> \<open>art_id_to_folders\<close>.
\<close>

type_synonym 'p reconciled = "(int \<rightharpoonup> 'p artwork) \<times> (int \<rightharpoonup> string list)"

text \<open>
  One iteration of the inner loop (lines 78-91). Reading \<open>art_id_to_folders[art_id]\<close>
  on a \<open>defaultdict(list)\<close> creates the key with an empty list when it is missing.
\<close>

definition process_artwork :: "string \<Rightarrow> 'p reconciled \<Rightarrow> 'p artwork \<Rightarrow> 'p reconciled" where
  "process_artwork folder_name st artwork =
     (case get_art_id artwork of
        None \<Rightarrow> st
      | Some i \<Rightarrow>
          (let unique_artworks = fst st;
               art_id_to_folders = snd st;
               unique_artworks' =
                 (case unique_artworks i of
                    None \<Rightarrow> unique_artworks(i \<mapsto> artwork)
                  | Some _ \<Rightarrow> unique_artworks);
               folders = (case art_id_to_folders i of None \<Rightarrow> [] | Some fs \<Rightarrow> fs);
               art_id_to_folders' =
                 (if folder_name \<in> set folders
                  then art_id_to_folders(i \<mapsto> folders)
                  else art_id_to_folders(i \<mapsto> folders @ [folder_name]))
           in (unique_artworks', art_id_to_folders')))"

text \<open>The inner loop over one folder's artworks, and the outer loop over the folders.\<close>

definition process_folder :: "'p reconciled \<Rightarrow> string \<times> 'p artwork list \<Rightarrow> 'p reconciled" where
  "process_folder st batch = foldl (process_artwork (fst batch)) st (snd batch)"

definition process_search_folders :: "(string \<times> 'p artwork list) list \<Rightarrow> 'p reconciled" where
  "process_search_folders batches = foldl process_folder (Map.empty, Map.empty) batches"

text \<open>All artworks of a run, in processing order.\<close>

definition processed :: "(string \<times> 'p artwork list) list \<Rightarrow> 'p artwork list" where
  "processed batches = concat (map snd batches)"

section \<open>Subset selector: \<open>analyze_and_create_subset\<close> (prune-OptionB-search_results.py)\<close>

subsection \<open>Python library behaviour the selector relies on\<close>

datatype error = ValueError | KeyError | OverflowError

text \<open>
  \<open>str.strip()\<close> and \<open>str.split(sep)\<close>. A character is a code point below 256; the
  ones \<open>str.strip\<close> removes are those for which \<open>str.isspace\<close> holds: tab, line feed,
  vertical tab, form feed, carriage return, the four separators 28-31, space, next line
  (133) and no-break space (160).
\<close>

definition is_space :: "char \<Rightarrow> bool" where
  "is_space c = (of_char c \<in> {9, 10, 11, 12, 13, 28, 29, 30, 31, 32, 133, 160 :: nat})"

definition str_strip :: "string \<Rightarrow> string" where
  "str_strip s = rev (dropWhile is_space (rev (dropWhile is_space s)))"

fun str_split :: "char \<Rightarrow> string \<Rightarrow> string list" where
  "str_split sep [] = [[]]"
| "str_split sep (c # cs) =
     (if c = sep then [] # str_split sep cs
      else (case str_split sep cs of
              [] \<Rightarrow> [[c]]
            | w # ws \<Rightarrow> (c # w) # ws))"

text \<open>
  The module-level generator of \<open>random\<close> is global state. It is modelled by the
  sequence of raw draws it will still produce; every draw consumes one. A draw \<open>n\<close>
  selects position \<open>n mod len\<close> of what is left of the population, so every outcome of
  \<open>random.sample\<close> (any \<open>k\<close> positions, in any order) and of \<open>random.shuffle\<close> (any
  permutation) is the outcome for some sequence, and a statement for all sequences
  covers every behaviour of the library.
\<close>

type_synonym rng = "nat list"

definition next_draw :: "rng \<Rightarrow> nat \<times> rng" where
  "next_draw g = (case g of [] \<Rightarrow> (0, []) | n # g' \<Rightarrow> (n, g'))"

fun draw :: "rng \<Rightarrow> 'a list \<Rightarrow> nat \<Rightarrow> 'a list \<times> rng" where
  "draw g xs 0 = ([], g)"
| "draw g [] (Suc k) = ([], g)"
| "draw g (x # xs) (Suc k) =
     (let i = fst (next_draw g) mod length (x # xs);
          rest = draw (snd (next_draw g)) (take i (x # xs) @ drop (Suc i) (x # xs)) k
      in ((x # xs) ! i # fst rest, snd rest))"

text \<open>\<open>random.sample(population, k)\<close> raises \<open>ValueError\<close> unless \<open>0 \<le> k \<le> len(population)\<close>.\<close>

definition random_sample :: "rng \<Rightarrow> 'a list \<Rightarrow> int \<Rightarrow> error + ('a list \<times> rng)" where
  "random_sample g population k =
     (if k < 0 \<or> int (length population) < k then Inl ValueError
      else Inr (draw g population (nat k)))"

definition random_shuffle :: "rng \<Rightarrow> 'a list \<Rightarrow> 'a list \<times> rng" where
  "random_shuffle g xs = draw g xs (length xs)"

text \<open>The slice \<open>xs[:n]\<close>; a negative \<open>n\<close> counts from the end.\<close>

definition slice_to :: "'a list \<Rightarrow> int \<Rightarrow> 'a list" where
  "slice_to xs n = (if 0 \<le> n then take (nat n) xs else take (nat (int (length xs) + n)) xs)"

text \<open>
  Floating point. A finite double is the rational it denotes. \<open>fl\<close> rounds a rational to
  the nearest double (53-bit significand, ties to even), as \<open>int / int\<close>, the conversion
  of an \<open>int\<close> and the product of two doubles do. The exponent range is not modelled:
  the quantities here are counts of rows and their quotients, far from overflow.
\<close>

function bit_length :: "int \<Rightarrow> nat" where
  "bit_length n = (if n \<le> 0 then 0 else Suc (bit_length (n div 2)))"
  by pat_completeness auto
termination
  by (relation "measure nat") auto

declare bit_length.simps [simp del]

definition round_half_even :: "int \<Rightarrow> int \<Rightarrow> int" where
  "round_half_even n d =
     (let q = n div d; r = n mod d
      in if 2 * r < d then q
         else if d < 2 * r then q + 1
         else if even q then q else q + 1)"

text \<open>
  \<open>fl_quot n d\<close> is the double nearest to \<open>n / d\<close> for positive \<open>n\<close> and \<open>d\<close>: with
  \<open>k\<close> the difference of the bit lengths, \<open>n / d\<close> lies strictly between \<open>2^(k-1)\<close> and
  \<open>2^(k+1)\<close>; \<open>e\<close> is chosen so that \<open>n / d / 2^e\<close> lies in \<open>[2^52, 2^53)\<close>, and that
  significand is rounded to an integer.
\<close>

definition fl_quot :: "int \<Rightarrow> int \<Rightarrow> rat" where
  "fl_quot n d =
     (if n \<le> 0 \<or> d \<le> 0 then 0
      else
        (let k = int (bit_length n) - int (bit_length d);
             e = (if d * 2 ^ nat k \<le> n * 2 ^ nat (- k) then k else k - 1) - 52;
             m = round_half_even (n * 2 ^ nat (- e)) (d * 2 ^ nat e)
         in if 0 \<le> e then of_int (m * 2 ^ nat e) else of_int m / of_int (2 ^ nat (- e))))"

definition fl :: "rat \<Rightarrow> rat" where
  "fl x =
     (let (n, d) = quotient_of x
      in if n < 0 then - fl_quot (- n) d else fl_quot n d)"

text \<open>\<open>int(x)\<close> truncates towards zero; \<open>x % 1\<close> is \<open>x - floor(x)\<close>, exact on doubles.\<close>

definition py_int :: "rat \<Rightarrow> int" where
  "py_int x = (if 0 \<le> x then \<lfloor>x\<rfloor> else \<lceil>x\<rceil>)"

definition mod_one :: "rat \<Rightarrow> rat" where
  "mod_one x = x - of_int \<lfloor>x\<rfloor>"

subsection \<open>Data analysis (lines 40-64)\<close>

text \<open>
  The loop body after line 51: the row is an \<open>art_id\<close> already converted by \<open>int(...)\<close>
  and the \<open>search_folders\<close> cell (\<open>read_rows\<close> below is the conversion).
  \<open>single_folder_artworks\<close> is a dictionary of lists; its insertion order is the order of
  \<open>.items()\<close> in step 4, so it is an association list. \<open>search_folder_counts\<close> is only
  printed and is left out.
\<close>

type_synonym single_folders = "(string \<times> int list) list"

fun dict_append :: "single_folders \<Rightarrow> string \<Rightarrow> int \<Rightarrow> single_folders" where
  "dict_append [] k v = [(k, [v])]"
| "dict_append ((k', vs) # d) k v =
     (if k' = k then (k', vs @ [v]) # d else (k', vs) # dict_append d k v)"

definition dict_get :: "single_folders \<Rightarrow> string \<Rightarrow> int list" where
  "dict_get d k = (case map_of d k of None \<Rightarrow> [] | Some vs \<Rightarrow> vs)"

record analysis =
  multi_folder_artworks :: "(int \<times> string) list"
  single_folder_artworks :: single_folders
  all_artworks :: "int set"

definition analyze_row :: "analysis \<Rightarrow> int \<times> string \<Rightarrow> analysis" where
  "analyze_row an row =
     (let art_id = fst row;
          search_folders = str_strip (snd row);
          an' = an\<lparr>all_artworks := insert art_id (all_artworks an)\<rparr>
      in if CHR '';'' \<in> set search_folders
         then an'\<lparr>multi_folder_artworks := multi_folder_artworks an' @ [(art_id, search_folders)]\<rparr>
         else an'\<lparr>single_folder_artworks :=
                    dict_append (single_folder_artworks an') search_folders art_id\<rparr>)"

definition analyze_rows :: "(int \<times> string) list \<Rightarrow> analysis" where
  "analyze_rows rows =
     foldl analyze_row
       \<lparr>multi_folder_artworks = [], single_folder_artworks = [], all_artworks = {}\<rparr> rows"

subsection \<open>Selection state\<close>

record selection =
  art_id :: int
  search_folders :: string
  selection_reason :: string

datatype warning = Only_available int int | Cannot_reach_target nat

record sel_state =
  selected_artworks :: "selection list"
  selected_art_ids :: "int set"
  remaining_slots :: int
  current_folder_counts :: "string \<Rightarrow> int"
  rng_state :: rng
  warnings :: "warning list"

text \<open>The hard-wired list \<open>[f"search_{i}" for i in range(1, 7)]\<close> of line 114.\<close>

definition search_folder_names :: "string list" where
  "search_folder_names =
     [''search_1'', ''search_2'', ''search_3'', ''search_4'', ''search_5'', ''search_6'']"

text \<open>
  The comprehension
  \<open>[aid for aid in single_folder_artworks.get(folder, []) if aid not in selected_art_ids]\<close>,
  written out four times in the source.
\<close>

definition available_artworks :: "single_folders \<Rightarrow> int set \<Rightarrow> string \<Rightarrow> int list" where
  "available_artworks single ids folder = filter (\<lambda>aid. aid \<notin> ids) (dict_get single folder)"

text \<open>The loop that appends one record per sampled artwork and marks it selected.\<close>

definition add_selected :: "string \<Rightarrow> sel_state \<Rightarrow> (int \<times> string) list \<Rightarrow> sel_state" where
  "add_selected reason st picked =
     st\<lparr>selected_artworks := selected_artworks st @
            map (\<lambda>(a, folder). \<lparr>art_id = a, search_folders = folder, selection_reason = reason\<rparr>)
              picked,
        selected_art_ids := selected_art_ids st \<union> set (map fst picked)\<rparr>"

text \<open>A \<open>for\<close> loop whose body may raise.\<close>

fun for_each :: "('s \<Rightarrow> 'a \<Rightarrow> error + 's) \<Rightarrow> 'a list \<Rightarrow> 's \<Rightarrow> error + 's" where
  "for_each body [] s = Inr s"
| "for_each body (x # xs) s =
     (case body s x of Inl e \<Rightarrow> Inl e | Inr s' \<Rightarrow> for_each body xs s')"

subsection \<open>Step 1: all multi-folder artworks (lines 85-111)\<close>

definition step1 :: "(int \<times> string) list \<Rightarrow> rng \<Rightarrow> warning list \<Rightarrow> sel_state" where
  "step1 multi g ws =
     add_selected ''multi_folder''
       \<lparr>selected_artworks = [], selected_art_ids = {}, remaining_slots = 0,
        current_folder_counts = (\<lambda>_. 0), rng_state = g, warnings = ws\<rparr> multi"

subsection \<open>Step 2: minimum per search folder (lines 113-161)\<close>

definition count_folders :: "selection list \<Rightarrow> string \<Rightarrow> int" where
  "count_folders sel =
     foldl (\<lambda>counts artwork.
         foldl (\<lambda>c folder. c(str_strip folder := c (str_strip folder) + 1)) counts
           (str_split CHR '';'' (search_folders artwork)))
       (\<lambda>_. 0) sel"

definition step2_folder :: "single_folders \<Rightarrow> int \<Rightarrow> sel_state \<Rightarrow> string \<Rightarrow> error + sel_state" where
  "step2_folder single min_per_search st folder =
     (let current_count = current_folder_counts st folder;
          needed = max 0 (min_per_search - current_count)
      in if 0 < needed \<and> 0 < remaining_slots st then
           (let available = available_artworks single (selected_art_ids st) folder;
                to_add = min (min needed (int (length available))) (remaining_slots st)
            in if 0 < to_add then
                 (case random_sample (rng_state st) available to_add of
                    Inl e \<Rightarrow> Inl e
                  | Inr (selected_from_folder, g') \<Rightarrow>
                      Inr ((add_selected ''min_requirement'' st
                              (map (\<lambda>a. (a, folder)) selected_from_folder))
                            \<lparr>remaining_slots := remaining_slots st - to_add,
                             current_folder_counts :=
                               (current_folder_counts st)
                                 (folder := current_folder_counts st folder + to_add),
                             rng_state := g'\<rparr>))
               else Inr st)
         else Inr st)"

definition step2 :: "single_folders \<Rightarrow> int \<Rightarrow> sel_state \<Rightarrow> error + sel_state" where
  "step2 single min_per_search st =
     for_each (step2_folder single min_per_search) search_folder_names
       (st\<lparr>current_folder_counts := count_folders (selected_artworks st)\<rparr>)"

subsection \<open>Step 3: proportional fill (lines 167-241)\<close>

text \<open>
  \<open>proportion = available_count / total_folder_remaining\<close>,
  \<open>target_to_add = int(remaining_slots * proportion)\<close>, plus one when
  \<open>(remaining_slots * proportion) % 1 > 0.5\<close>: two roundings, of the quotient and of the
  product.
\<close>

definition target_to_add :: "int \<Rightarrow> nat \<Rightarrow> nat \<Rightarrow> int" where
  "target_to_add remaining available_count total_folder_remaining =
     (let proportion = fl (of_nat available_count / of_nat total_folder_remaining);
          x = fl (fl (of_int remaining) * proportion)
      in py_int x + (if 1 / 2 < mod_one x then 1 else 0))"

definition step3_folder ::
  "single_folders \<Rightarrow> (string \<times> nat) list \<Rightarrow> nat \<Rightarrow> sel_state \<Rightarrow> string \<Rightarrow> error + sel_state" where
  "step3_folder single folder_remaining total_folder_remaining st folder =
     (case map_of folder_remaining folder of
        None \<Rightarrow> Inl KeyError
      | Some available_count \<Rightarrow>
          if 0 < available_count then
            (let target = target_to_add (remaining_slots st) available_count total_folder_remaining;
                 available = available_artworks single (selected_art_ids st) folder;
                 to_add = min (min target (int (length available))) (remaining_slots st)
             in if 0 < to_add then
                  (case random_sample (rng_state st) available to_add of
                     Inl e \<Rightarrow> Inl e
                   | Inr (selected_from_folder, g') \<Rightarrow>
                       Inr ((add_selected ''proportional'' st
                               (map (\<lambda>a. (a, folder)) selected_from_folder))
                             \<lparr>remaining_slots := remaining_slots st - to_add,
                              current_folder_counts :=
                                (current_folder_counts st)
                                  (folder := current_folder_counts st folder + to_add),
                              rng_state := g'\<rparr>))
                else Inr st)
          else Inr st)"

definition step3 :: "single_folders \<Rightarrow> sel_state \<Rightarrow> error + sel_state" where
  "step3 single st =
     (if 0 < remaining_slots st then
        (let all_remaining =
               concat (map (\<lambda>folder. map (\<lambda>a. (a, folder))
                              (available_artworks single (selected_art_ids st) folder))
                         search_folder_names);
             total_remaining = length all_remaining
         in if 0 < total_remaining then
              (let folder_remaining =
                     map (\<lambda>folder. (folder,
                            length (available_artworks single (selected_art_ids st) folder)))
                       search_folder_names;
                   total_folder_remaining = sum_list (map snd folder_remaining)
               in if 0 < total_folder_remaining then
                    for_each (step3_folder single folder_remaining total_folder_remaining)
                      search_folder_names st
                  else Inr st)
            else Inr st)
      else Inr st)"

subsection \<open>Step 4: fill to target (lines 243-274)\<close>

definition all_remaining_artworks :: "single_folders \<Rightarrow> int set \<Rightarrow> (int \<times> string) list" where
  "all_remaining_artworks single ids =
     concat (map (\<lambda>(folder, art_ids).
                    map (\<lambda>a. (a, folder)) (filter (\<lambda>a. a \<notin> ids) art_ids)) single)"

definition step4 :: "single_folders \<Rightarrow> sel_state \<Rightarrow> error + sel_state" where
  "step4 single st =
     (if 0 < remaining_slots st then
        (let remaining = all_remaining_artworks single (selected_art_ids st)
         in if remaining_slots st \<le> int (length remaining) then
              (case random_sample (rng_state st) remaining (remaining_slots st) of
                 Inl e \<Rightarrow> Inl e
               | Inr (final_selection, g') \<Rightarrow>
                   Inr ((add_selected ''fill_to_target'' st final_selection)
                         \<lparr>remaining_slots := 0, rng_state := g'\<rparr>))
            else Inr (st\<lparr>warnings := warnings st @ [Cannot_reach_target (length remaining)]\<rparr>))
      else Inr st)"

subsection \<open>The whole function\<close>

text \<open>
  \<open>subset_run\<close> is the body of \<open>analyze_and_create_subset\<close> from line 40 on, for rows
  whose \<open>art_id\<close> converted, and returns the final state (selection, generator, warnings
  printed); \<open>analyze_and_create_subset\<close> returns the selection.
\<close>

definition subset_run :: "rng \<Rightarrow> (int \<times> string) list \<Rightarrow> int \<Rightarrow> int \<Rightarrow> error + sel_state" where
  "subset_run g rows target_size min_per_search =
     (let an = analyze_rows rows;
          single = single_folder_artworks an;
          total_available = int (card (all_artworks an));
          ws = (if total_available < target_size
                then [Only_available total_available target_size] else []);
          target = (if total_available < target_size then total_available else target_size);
          st1 = step1 (multi_folder_artworks an) g ws;
          st1' = st1\<lparr>remaining_slots := target - int (length (selected_artworks st1))\<rparr>
      in if remaining_slots st1' \<le> 0 then
           (let shuffled = random_shuffle g (selected_artworks st1')
            in Inr (st1'\<lparr>selected_artworks := slice_to (fst shuffled) target,
                       rng_state := snd shuffled\<rparr>))
         else
           (case step2 single min_per_search st1' of
              Inl e \<Rightarrow> Inl e
            | Inr st2 \<Rightarrow>
                (case step3 single st2 of
                   Inl e \<Rightarrow> Inl e
                 | Inr st3 \<Rightarrow>
                     (case step4 single st3 of
                        Inl e \<Rightarrow> Inl e
                      | Inr st4 \<Rightarrow>
                          (let shuffled =
                                 random_shuffle (rng_state st4) (selected_artworks st4)
                           in Inr (st4\<lparr>selected_artworks := fst shuffled,
                                      rng_state := snd shuffled\<rparr>))))))"

definition analyze_and_create_subset ::
  "rng \<Rightarrow> (int \<times> string) list \<Rightarrow> int \<Rightarrow> int \<Rightarrow> error + selection list" where
  "analyze_and_create_subset g rows target_size min_per_search =
     (case subset_run g rows target_size min_per_search of
        Inl e \<Rightarrow> Inl e
      | Inr st \<Rightarrow> Inr (selected_artworks st))"

subsection \<open>Reading the data frame (lines 35-38 and 51)\<close>

text \<open>
  The data frame \<open>pd.read_csv\<close> delivers has two cells per row; a cell that is empty in
  the file is missing (\<open>None\<close> here), and \<open>dropna()\<close> drops every row with a missing
  cell. An \<open>art_id\<close> cell that is present is an integer, a finite float, an infinite
  float, or, in a column that is not numeric throughout, the text of the cell. The
  \<open>search_folders\<close> cell is taken to be text.
\<close>

datatype cell = Int_cell int | Float_cell rat | Inf_cell | Str_cell string

definition dropna :: "(cell option \<times> string option) list \<Rightarrow> (cell \<times> string) list" where
  "dropna df =
     concat (map (\<lambda>row. case row of (Some c, Some s) \<Rightarrow> [(c, s)] | _ \<Rightarrow> []) df)"

text \<open>
  \<open>int(s)\<close> for a string: blanks around, an optional sign, then decimal digits, where
  single underscores may stand between digits; anything else raises \<open>ValueError\<close>.
\<close>

definition is_digit :: "char \<Rightarrow> bool" where
  "is_digit c = (48 \<le> (of_char c :: nat) \<and> (of_char c :: nat) \<le> 57)"

fun digits_value :: "nat \<Rightarrow> string \<Rightarrow> nat option" where
  "digits_value acc [] = Some acc"
| "digits_value acc (c # cs) =
     (if is_digit c then digits_value (10 * acc + (of_char c - 48)) cs
      else if c = CHR ''_'' then
        (case cs of
           [] \<Rightarrow> None
         | d # _ \<Rightarrow> if is_digit d then digits_value acc cs else None)
      else None)"

definition unsigned_value :: "string \<Rightarrow> nat option" where
  "unsigned_value s =
     (case s of [] \<Rightarrow> None | d # _ \<Rightarrow> if is_digit d then digits_value 0 s else None)"

definition int_of_str :: "string \<Rightarrow> int option" where
  "int_of_str s =
     (case str_strip s of
        [] \<Rightarrow> None
      | c # cs \<Rightarrow>
          if c = CHR ''-'' then map_option (\<lambda>n. - int n) (unsigned_value cs)
          else if c = CHR ''+'' then map_option int (unsigned_value cs)
          else map_option int (unsigned_value (c # cs)))"

text \<open>
  \<open>int(row["art_id"])\<close> of line 51: an integer is kept, a float is truncated, an infinite
  float raises \<open>OverflowError\<close>, a string is parsed.
\<close>

definition int_of_cell :: "cell \<Rightarrow> error + int" where
  "int_of_cell c =
     (case c of
        Int_cell i \<Rightarrow> Inr i
      | Float_cell x \<Rightarrow> Inr (py_int x)
      | Inf_cell \<Rightarrow> Inl OverflowError
      | Str_cell s \<Rightarrow> (case int_of_str s of None \<Rightarrow> Inl ValueError | Some i \<Rightarrow> Inr i))"

text \<open>
  The conversion is the first statement of each iteration of the loop of lines 50-64,
  and an exception it raises ends the call: nothing is returned. So the call raises
  exactly when the conversion of some row does, with the error of the first such row,
  and otherwise runs the loop on the converted rows. \<open>read_rows\<close> converts the rows in
  order and stops at the first error.
\<close>

fun read_rows :: "(cell \<times> string) list \<Rightarrow> error + (int \<times> string) list" where
  "read_rows [] = Inr []"
| "read_rows ((c, s) # rest) =
     (case int_of_cell c of
        Inl e \<Rightarrow> Inl e
      | Inr i \<Rightarrow>
          (case read_rows rest of
             Inl e \<Rightarrow> Inl e
           | Inr rows \<Rightarrow> Inr ((i, s) # rows)))"

text \<open>The function on the data frame as read from the file.\<close>

definition analyze_and_create_subset_csv ::
  "rng \<Rightarrow> (cell option \<times> string option) list \<Rightarrow> int \<Rightarrow> int \<Rightarrow> error + selection list" where
  "analyze_and_create_subset_csv g df target_size min_per_search =
     (case read_rows (dropna df) of
        Inl e \<Rightarrow> Inl e
      | Inr rows \<Rightarrow> analyze_and_create_subset g rows target_size min_per_search)"

section \<open>The allocation formula of the specification\<close>

text \<open>
  The specification's words for step 3: the floor of
  \<open>remaining_slots \<times> pool / total_remaining_pool\<close>, plus one when the fractional
  remainder of that product exceeds one half. The product is the exact one.
\<close>

definition spec_allocation :: "int \<Rightarrow> nat \<Rightarrow> nat \<Rightarrow> int" where
  "spec_allocation remaining pool total_remaining_pool =
     (let x = (of_int remaining * of_nat pool / of_nat total_remaining_pool :: rat)
      in \<lfloor>x\<rfloor> + (if 1 / 2 < x - of_int \<lfloor>x\<rfloor> then 1 else 0))"

text \<open>The records of a selection that step 3 drew for a folder.\<close>

definition drawn_proportional :: "string \<Rightarrow> selection list \<Rightarrow> selection list" where
  "drawn_proportional folder sel =
     filter (\<lambda>r. selection_reason r = ''proportional'' \<and> search_folders r = folder) sel"

section \<open>Notions used in the proofs\<close>

text \<open>A row goes to \<open>multi_folder_artworks\<close> when its stripped folder string holds a semicolon.\<close>

definition is_multi :: "int \<times> string \<Rightarrow> bool" where
  "is_multi row = (CHR '';'' \<in> set (str_strip (snd row)))"

text \<open>
  \<open>pick_from single st st'\<close>: \<open>st'\<close> is \<open>st\<close> after appending records for some artworks
  \<open>picked\<close> out of the still unselected single-folder artworks, with one of the three
  reasons of steps 2 to 4, and lowering \<open>remaining_slots\<close> by their number. Every folder
  iteration of steps 2 and 3 and step 4 has this shape (with \<open>picked\<close> empty when it adds
  nothing); a property preserved by it holds after all three steps.
\<close>

definition pick_from :: "single_folders \<Rightarrow> sel_state \<Rightarrow> sel_state \<Rightarrow> bool" where
  "pick_from single st st' \<longleftrightarrow>
     (\<exists>reason picked.
        reason \<in> {''min_requirement'', ''proportional'', ''fill_to_target''} \<and>
        selected_artworks st' = selected_artworks st @
          map (\<lambda>(a, folder). \<lparr>art_id = a, search_folders = folder, selection_reason = reason\<rparr>)
            picked \<and>
        selected_art_ids st' = selected_art_ids st \<union> fst ` set picked \<and>
        remaining_slots st' = remaining_slots st - int (length picked) \<and>
        (0 \<le> remaining_slots st \<longrightarrow> int (length picked) \<le> remaining_slots st) \<and>
        mset picked \<subseteq># mset (all_remaining_artworks single (selected_art_ids st)))"

definition preserved :: "single_folders \<Rightarrow> (sel_state \<Rightarrow> bool) \<Rightarrow> bool" where
  "preserved single P \<longleftrightarrow> (\<forall>s s'. pick_from single s s' \<longrightarrow> P s \<longrightarrow> P s')"

text \<open>
  Bookkeeping of steps 2 to 4: selected records plus free slots make up the target, and
  \<open>selected_art_ids\<close> is the set of selected ids.
\<close>

definition count_inv :: "int \<Rightarrow> int set \<Rightarrow> sel_state \<Rightarrow> bool" where
  "count_inv T M st \<longleftrightarrow>
     int (length (selected_artworks st)) + remaining_slots st = T \<and>
     0 \<le> remaining_slots st \<and>
     selected_art_ids st = art_id ` set (selected_artworks st) \<and>
     M \<subseteq> selected_art_ids st"

text \<open>The state after step 1 (line 99), and the target after line 75.\<close>

definition start_state :: "rng \<Rightarrow> (int \<times> string) list \<Rightarrow> int \<Rightarrow> sel_state" where
  "start_state g rows target_size =
     (let an = analyze_rows rows;
          total_available = int (card (all_artworks an));
          ws = (if total_available < target_size
                then [Only_available total_available target_size] else []);
          target = (if total_available < target_size then total_available else target_size);
          st1 = step1 (multi_folder_artworks an) g ws
      in st1\<lparr>remaining_slots := target - int (length (selected_artworks st1))\<rparr>)"

definition clamped :: "(int \<times> string) list \<Rightarrow> int \<Rightarrow> int" where
  "clamped rows target_size = min target_size (int (card (fst ` set rows)))"

text \<open>Invariant of steps 2 to 4 when the input ids are distinct.\<close>

definition distinct_inv :: "sel_state \<Rightarrow> bool" where
  "distinct_inv st \<longleftrightarrow>
     distinct (map art_id (selected_artworks st)) \<and>
     selected_art_ids st = art_id ` set (selected_artworks st)"

text \<open>
  Invariant of the selected records: the reason is one of the four literals, and it is
  \<open>multi_folder\<close> exactly for the records whose folder string holds a semicolon.
\<close>

definition reason_inv :: "sel_state \<Rightarrow> bool" where
  "reason_inv st \<longleftrightarrow>
     (\<forall>r\<in>set (selected_artworks st).
        selection_reason r \<in> {''multi_folder'', ''min_requirement'', ''proportional'', ''fill_to_target''} \<and>
        (CHR '';'' \<in> set (search_folders r) \<longleftrightarrow> selection_reason r = ''multi_folder''))"

text \<open>
  The folder list of a record, as line 119 to 121 read it, and the number of selected
  records whose folder list names a folder.
\<close>

definition folders_of :: "selection \<Rightarrow> string list" where
  "folders_of r = map str_strip (str_split CHR '';'' (search_folders r))"

definition folder_count :: "string \<Rightarrow> selection list \<Rightarrow> nat" where
  "folder_count f sel = length (filter (\<lambda>r. f \<in> set (folders_of r)) sel)"

definition deduplicated :: "selection list \<Rightarrow> bool" where
  "deduplicated sel = list_all (\<lambda>r. distinct (folders_of r)) sel"

text \<open>
  The state of the loop of lines 130-161 when the turn of \<open>folder\<close> comes, and the
  condition that its shortfall \<open>needed\<close> can then be covered: by the unselected
  single-folder artworks of the folder and by the slots still free.
\<close>

definition turn_state :: "single_folders \<Rightarrow> int \<Rightarrow> sel_state \<Rightarrow> string \<Rightarrow> error + sel_state" where
  "turn_state single min_per_search st folder =
     for_each (step2_folder single min_per_search)
       (takeWhile (\<lambda>x. x \<noteq> folder) search_folder_names)
       (st\<lparr>current_folder_counts := count_folders (selected_artworks st)\<rparr>)"

definition quota_feasible :: "single_folders \<Rightarrow> int \<Rightarrow> sel_state \<Rightarrow> string \<Rightarrow> bool" where
  "quota_feasible single min_per_search st folder =
     (case turn_state single min_per_search st folder of
        Inl e \<Rightarrow> False
      | Inr s \<Rightarrow>
          (let needed = max 0 (min_per_search - current_folder_counts s folder)
           in needed \<le> int (length (available_artworks single (selected_art_ids s) folder)) \<and>
              needed \<le> remaining_slots s))"

section \<open>Properties of the reconciler\<close>

subsection \<open>First occurrence wins\<close>

lemma process_artwork_catalog:
  "fst (process_artwork f st a) i =
     (case fst st i of Some b \<Rightarrow> Some b
      | None \<Rightarrow> if get_art_id a = Some i then Some a else None)"
  by (cases st) (auto simp: process_artwork_def Let_def split: option.splits)

lemma foldl_process_artwork_catalog:
  "fst (foldl (process_artwork f) st xs) i =
     (case fst st i of Some b \<Rightarrow> Some b
      | None \<Rightarrow> find (\<lambda>a. get_art_id a = Some i) xs)"
proof (induction xs arbitrary: st)
  case Nil
  then show ?case by (simp split: option.splits)
next
  case (Cons x xs)
  show ?case
    by (simp add: Cons.IH process_artwork_catalog split: option.splits)
qed

lemma find_append_case:
  "find P (xs @ ys) = (case find P xs of Some x \<Rightarrow> Some x | None \<Rightarrow> find P ys)"
  by (induction xs) auto

lemma process_folder_catalog:
  "fst (process_folder st b) i =
     (case fst st i of Some c \<Rightarrow> Some c
      | None \<Rightarrow> find (\<lambda>a. get_art_id a = Some i) (snd b))"
  by (simp add: process_folder_def foldl_process_artwork_catalog)

lemma processed_Cons: "processed (b # bs) = snd b @ processed bs"
  by (simp add: processed_def)

lemma foldl_process_folder_catalog:
  "fst (foldl process_folder st bs) i =
     (case fst st i of Some b \<Rightarrow> Some b
      | None \<Rightarrow> find (\<lambda>a. get_art_id a = Some i) (processed bs))"
proof (induction bs arbitrary: st)
  case Nil
  then show ?case by (simp add: processed_def split: option.splits)
next
  case (Cons b bs)
  show ?case
    by (simp add: Cons.IH processed_Cons process_folder_catalog find_append_case
        split: option.splits)
qed

text \<open>
  C5. For every ordered sequence of (folder, batch) pairs, the catalog maps each
  \<open>art_id\<close> to the artwork of its first processed occurrence; and from any intermediate
  state, an \<open>art_id\<close> that is already stored keeps its stored artwork whatever is
  processed later.
\<close>

theorem catalog_first_occurrence_wins:
  "fst (process_search_folders batches) i =
     find (\<lambda>a. get_art_id a = Some i) (processed batches) \<and>
   fst (foldl process_folder st batches) i =
     (case fst st i of Some b \<Rightarrow> Some b
      | None \<Rightarrow> find (\<lambda>a. get_art_id a = Some i) (processed batches))"
  by (simp add: process_search_folders_def foldl_process_folder_catalog)

subsection \<open>Catalog and provenance map have the same keys\<close>

lemma process_artwork_dom_fst:
  "dom (fst (process_artwork f st a)) = dom (fst st) \<union> {i. get_art_id a = Some i}"
  by (cases st) (auto simp: process_artwork_def Let_def split: option.splits if_splits)

lemma process_artwork_dom_snd:
  "dom (snd (process_artwork f st a)) = dom (snd st) \<union> {i. get_art_id a = Some i}"
  by (cases st) (auto simp: process_artwork_def Let_def split: option.splits if_splits)

lemma foldl_process_artwork_dom:
  "dom (fst (foldl (process_artwork f) st xs)) =
     dom (fst st) \<union> {i. Some i \<in> get_art_id ` set xs} \<and>
   dom (snd (foldl (process_artwork f) st xs)) =
     dom (snd st) \<union> {i. Some i \<in> get_art_id ` set xs}"
proof (induction xs arbitrary: st)
  case Nil
  then show ?case by simp
next
  case (Cons x xs)
  show ?case
    by (auto simp: Cons.IH process_artwork_dom_fst process_artwork_dom_snd)
qed

lemma process_folder_dom:
  "dom (fst (process_folder st b)) =
     dom (fst st) \<union> {i. Some i \<in> get_art_id ` set (snd b)} \<and>
   dom (snd (process_folder st b)) =
     dom (snd st) \<union> {i. Some i \<in> get_art_id ` set (snd b)}"
  by (simp add: process_folder_def foldl_process_artwork_dom)

lemma foldl_process_folder_dom:
  "dom (fst (foldl process_folder st bs)) =
     dom (fst st) \<union> {i. Some i \<in> get_art_id ` set (processed bs)} \<and>
   dom (snd (foldl process_folder st bs)) =
     dom (snd st) \<union> {i. Some i \<in> get_art_id ` set (processed bs)}"
proof (induction bs arbitrary: st)
  case Nil
  then show ?case by (simp add: processed_def)
next
  case (Cons b bs)
  show ?case
    unfolding processed_Cons by (auto simp: Cons.IH process_folder_dom)
qed

text \<open>
  C10. After every run the catalog and the provenance map have the same key set, namely
  the \<open>art_id\<close>s carried by the processed artworks; an artwork without \<open>art_id\<close>
  contributes to neither.
\<close>

theorem catalog_provenance_same_keys:
  "dom (fst (process_search_folders batches)) = dom (snd (process_search_folders batches)) \<and>
   dom (fst (process_search_folders batches)) =
     {i. Some i \<in> get_art_id ` set (processed batches)}"
  by (simp add: process_search_folders_def foldl_process_folder_dom)

section \<open>Properties of the selector\<close>

subsection \<open>Sampling\<close>

lemma length_remove_nth:
  "i < length ys \<Longrightarrow> length (take i ys @ drop (Suc i) ys) = length ys - 1"
  by (simp add: min_def)

lemma length_draw: "length (fst (draw g xs k)) = min k (length xs)"
proof (induction g xs k rule: draw.induct)
  case (3 g x xs k)
  let ?ys = "x # xs"
  let ?i = "fst (next_draw g) mod length ?ys"
  have i: "?i < length ?ys" by simp
  have "length (fst (draw (snd (next_draw g)) (take ?i ?ys @ drop (Suc ?i) ?ys) k)) =
          min k (length (take ?i ?ys @ drop (Suc ?i) ?ys))"
    using 3 by simp
  also have "\<dots> = min k (length xs)"
    unfolding length_remove_nth[OF i] by simp
  finally show ?case
    by (simp add: Let_def del: take_Suc_Cons drop_Suc_Cons)
qed simp_all

lemma mset_remove_nth:
  "i < length ys \<Longrightarrow> mset ys = add_mset (ys ! i) (mset (take i ys @ drop (Suc i) ys))"
  by (metis add_mset_add_single id_take_nth_drop mset.simps(2) mset_append union_mset_add_mset_right union_commute)

lemma mset_draw: "mset (fst (draw g xs k)) \<subseteq># mset xs"
proof (induction g xs k rule: draw.induct)
  case (3 g x xs k)
  let ?ys = "x # xs"
  let ?i = "fst (next_draw g) mod length ?ys"
  have i: "?i < length ?ys" by simp
  have "mset (fst (draw (snd (next_draw g)) (take ?i ?ys @ drop (Suc ?i) ?ys) k))
          \<subseteq># mset (take ?i ?ys @ drop (Suc ?i) ?ys)"
    using 3 by simp
  then have "add_mset (?ys ! ?i) (mset (fst (draw (snd (next_draw g)) (take ?i ?ys @ drop (Suc ?i) ?ys) k)))
          \<subseteq># mset ?ys"
    using mset_remove_nth[OF i] by (metis mset_subset_eq_add_mset_cancel)
  then show ?case by (simp add: Let_def del: take_Suc_Cons drop_Suc_Cons nth_Cons_Suc mset.simps)
     (simp del: take_Suc_Cons drop_Suc_Cons)
qed simp_all

lemma mset_draw_all: "length xs \<le> k \<Longrightarrow> mset (fst (draw g xs k)) = mset xs"
  by (metis length_draw mset_draw min.absorb2 size_mset mset_subset_size subset_mset.le_less less_irrefl)

lemma random_sample_ok:
  "0 \<le> k \<Longrightarrow> k \<le> int (length xs) \<Longrightarrow>
   \<exists>ys g'. random_sample g xs k = Inr (ys, g') \<and> int (length ys) = k \<and> mset ys \<subseteq># mset xs"
  unfolding random_sample_def
  by (cases "draw g xs (nat k)") (use length_draw[of g xs "nat k"] mset_draw[of g xs "nat k"] in auto)

lemma random_shuffle_perm: "mset (fst (random_shuffle g xs)) = mset xs"
  by (simp add: random_shuffle_def mset_draw_all)

lemma dict_append_values:
  "mset (concat (map snd (dict_append d k v))) = add_mset v (mset (concat (map snd d)))"
  by (induction d k v rule: dict_append.induct) auto

lemma dict_append_keys: "fst ` set (dict_append d k v) = insert k (fst ` set d)"
  by (induction d k v rule: dict_append.induct) auto

lemma analyze_row_all: "all_artworks (analyze_row an row) = insert (fst row) (all_artworks an)"
  by (simp add: analyze_row_def Let_def)

lemma analyze_row_multi:
  "multi_folder_artworks (analyze_row an row) =
     multi_folder_artworks an @ (if is_multi row then [(fst row, str_strip (snd row))] else [])"
  by (simp add: analyze_row_def Let_def is_multi_def)

lemma analyze_row_single_values:
  "mset (concat (map snd (single_folder_artworks (analyze_row an row)))) =
     mset (concat (map snd (single_folder_artworks an))) +
     (if is_multi row then {#} else {#fst row#})"
  by (simp add: analyze_row_def Let_def is_multi_def dict_append_values)

lemma analyze_row_single_keys:
  "fst ` set (single_folder_artworks (analyze_row an row)) =
     fst ` set (single_folder_artworks an) \<union>
     (if is_multi row then {} else {str_strip (snd row)})"
  by (simp add: analyze_row_def Let_def is_multi_def dict_append_keys)

lemma foldl_analyze_row_all:
  "all_artworks (foldl analyze_row an rows) = all_artworks an \<union> fst ` set rows"
  by (induction rows arbitrary: an) (auto simp: analyze_row_all)

lemma foldl_analyze_row_multi:
  "multi_folder_artworks (foldl analyze_row an rows) =
     multi_folder_artworks an @ map (\<lambda>r. (fst r, str_strip (snd r))) (filter is_multi rows)"
  by (induction rows arbitrary: an) (auto simp: analyze_row_multi)

lemma foldl_analyze_row_single_values:
  "mset (concat (map snd (single_folder_artworks (foldl analyze_row an rows)))) =
     mset (concat (map snd (single_folder_artworks an))) +
     mset (map fst (filter (\<lambda>r. \<not> is_multi r) rows))"
  by (induction rows arbitrary: an) (auto simp: analyze_row_single_values)

lemma foldl_analyze_row_single_keys:
  "fst ` set (single_folder_artworks (foldl analyze_row an rows)) =
     fst ` set (single_folder_artworks an) \<union>
     (\<lambda>r. str_strip (snd r)) ` {r \<in> set rows. \<not> is_multi r}"
proof (induction rows arbitrary: an)
  case Nil
  then show ?case by simp
next
  case (Cons r rows)
  have "{x \<in> set (r # rows). \<not> is_multi x} =
          (if is_multi r then {} else {r}) \<union> {x \<in> set rows. \<not> is_multi x}"
    by auto
  then show ?case
    by (simp add: Cons.IH analyze_row_single_keys Un_assoc)
qed

lemma analyze_rows_all: "all_artworks (analyze_rows rows) = fst ` set rows"
  by (simp add: analyze_rows_def foldl_analyze_row_all foldl_analyze_row_multi foldl_analyze_row_single_values foldl_analyze_row_single_keys)

lemma analyze_rows_multi:
  "multi_folder_artworks (analyze_rows rows) =
     map (\<lambda>r. (fst r, str_strip (snd r))) (filter is_multi rows)"
  by (simp add: analyze_rows_def foldl_analyze_row_all foldl_analyze_row_multi foldl_analyze_row_single_values foldl_analyze_row_single_keys)

lemma analyze_rows_single_values:
  "mset (concat (map snd (single_folder_artworks (analyze_rows rows)))) =
     mset (map fst (filter (\<lambda>r. \<not> is_multi r) rows))"
  by (simp add: analyze_rows_def foldl_analyze_row_all foldl_analyze_row_multi foldl_analyze_row_single_values foldl_analyze_row_single_keys)

lemma analyze_rows_single_keys:
  "fst ` set (single_folder_artworks (analyze_rows rows)) =
     (\<lambda>r. str_strip (snd r)) ` {r \<in> set rows. \<not> is_multi r}"
  by (simp add: analyze_rows_def foldl_analyze_row_all foldl_analyze_row_multi foldl_analyze_row_single_values foldl_analyze_row_single_keys)

lemma pick_from_refl:
  "selected_artworks st' = selected_artworks st \<Longrightarrow> selected_art_ids st' = selected_art_ids st \<Longrightarrow>
   remaining_slots st' = remaining_slots st \<Longrightarrow> pick_from single st st'"
  unfolding pick_from_def
  by (rule exI[of _ "''min_requirement''"], rule exI[of _ "[]"]) simp

lemma pick_from_add:
  assumes "reason \<in> {''min_requirement'', ''proportional'', ''fill_to_target''}"
    and "mset picked \<subseteq># mset (all_remaining_artworks single (selected_art_ids st))"
    and "int (length picked) \<le> remaining_slots st"
    and "selected_artworks st' = selected_artworks (add_selected reason st picked)"
    and "selected_art_ids st' = selected_art_ids (add_selected reason st picked)"
    and "remaining_slots st' = remaining_slots st - int (length picked)"
  shows "pick_from single st st'"
  unfolding pick_from_def
  by (rule exI[of _ reason], rule exI[of _ picked]) (use assms in \<open>simp add: add_selected_def\<close>)

lemma mset_block_concat: "x \<in> set xs \<Longrightarrow> mset (h x) \<subseteq># mset (concat (map h xs))"
  by (induction xs) (auto intro: subset_mset.order_trans)

lemma available_sub:
  "mset (map (\<lambda>a. (a, f)) (available_artworks single ids f)) \<subseteq>#
     mset (all_remaining_artworks single ids)"
proof (cases "map_of single f")
  case None
  then show ?thesis by (simp add: available_artworks_def dict_get_def)
next
  case (Some vs)
  then have "(f, vs) \<in> set single" by (rule map_of_SomeD)
  from mset_block_concat[OF this, of "\<lambda>(folder, art_ids). map (\<lambda>a. (a, folder)) (filter (\<lambda>a. a \<notin> ids) art_ids)"]
  show ?thesis using Some
    by (simp add: available_artworks_def dict_get_def all_remaining_artworks_def)
qed

lemma sample_available_pick:
  assumes "reason \<in> {''min_requirement'', ''proportional'', ''fill_to_target''}"
    and "0 < to_add" and "to_add \<le> int (length (available_artworks single (selected_art_ids st) f))"
    and "to_add \<le> remaining_slots st"
  shows "\<exists>ys g'. random_sample (rng_state st) (available_artworks single (selected_art_ids st) f) to_add = Inr (ys, g') \<and> int (length ys) = to_add \<and>
      pick_from single st ((add_selected reason st (map (\<lambda>a. (a, f)) ys))
         \<lparr>remaining_slots := remaining_slots st - to_add, current_folder_counts := cf, rng_state := g'\<rparr>)"
proof -
  obtain ys g' where s: "random_sample (rng_state st) (available_artworks single (selected_art_ids st) f) to_add = Inr (ys, g')"
    and l: "int (length ys) = to_add"
    and m: "mset ys \<subseteq># mset (available_artworks single (selected_art_ids st) f)"
    using random_sample_ok[of to_add "available_artworks single (selected_art_ids st) f" "rng_state st"] assms
    by auto
  have "mset (map (\<lambda>a. (a, f)) ys) \<subseteq># mset (map (\<lambda>a. (a, f)) (available_artworks single (selected_art_ids st) f))"
    using m by (simp add: image_mset_subseteq_mono)
  then have sub: "mset (map (\<lambda>a. (a, f)) ys) \<subseteq># mset (all_remaining_artworks single (selected_art_ids st))"
    using available_sub[of f single "selected_art_ids st"] by (rule subset_mset.order_trans)
  have "pick_from single st ((add_selected reason st (map (\<lambda>a. (a, f)) ys))
         \<lparr>remaining_slots := remaining_slots st - to_add, current_folder_counts := cf, rng_state := g'\<rparr>)"
    by (rule pick_from_add[OF assms(1) sub]) (use l assms in simp_all)
  with s l show ?thesis by blast
qed

lemma step2_folder_pick:
  "\<exists>st'. step2_folder single m st f = Inr st' \<and> pick_from single st st'"
proof -
  let ?needed = "max 0 (m - current_folder_counts st f)"
  let ?av = "available_artworks single (selected_art_ids st) f"
  let ?to_add = "min (min ?needed (int (length ?av))) (remaining_slots st)"
  show ?thesis
  proof (cases "0 < ?needed \<and> 0 < remaining_slots st \<and> 0 < ?to_add")
    case True
    then have pre: "0 < ?to_add" "?to_add \<le> int (length ?av)" "?to_add \<le> remaining_slots st"
      by auto
    have r: "''min_requirement'' \<in> {''min_requirement'', ''proportional'', ''fill_to_target''}"
      by simp
    from sample_available_pick[OF r pre,
        of "(current_folder_counts st)(f := current_folder_counts st f + ?to_add)"]
    obtain ys g' where "random_sample (rng_state st) ?av ?to_add = Inr (ys, g')"
      and "pick_from single st ((add_selected ''min_requirement'' st (map (\<lambda>a. (a, f)) ys))
         \<lparr>remaining_slots := remaining_slots st - ?to_add,
          current_folder_counts := (current_folder_counts st)(f := current_folder_counts st f + ?to_add),
          rng_state := g'\<rparr>)"
      by blast
    then show ?thesis using True
      by (simp add: step2_folder_def Let_def)
  next
    case False
    then have "step2_folder single m st f = Inr st"
      by (auto simp: step2_folder_def Let_def)
    then show ?thesis by (simp add: pick_from_refl)
  qed
qed

lemma step3_folder_pick:
  assumes "map_of fr f = Some c"
  shows "\<exists>st'. step3_folder single fr t st f = Inr st' \<and> pick_from single st st'"
proof -
  let ?target = "target_to_add (remaining_slots st) c t"
  let ?av = "available_artworks single (selected_art_ids st) f"
  let ?to_add = "min (min ?target (int (length ?av))) (remaining_slots st)"
  show ?thesis
  proof (cases "0 < c \<and> 0 < ?to_add")
    case True
    then have pre: "0 < ?to_add" "?to_add \<le> int (length ?av)" "?to_add \<le> remaining_slots st"
      by auto
    have r: "''proportional'' \<in> {''min_requirement'', ''proportional'', ''fill_to_target''}"
      by simp
    from sample_available_pick[OF r pre,
        of "(current_folder_counts st)(f := current_folder_counts st f + ?to_add)"]
    obtain ys g' where "random_sample (rng_state st) ?av ?to_add = Inr (ys, g')"
      and "pick_from single st ((add_selected ''proportional'' st (map (\<lambda>a. (a, f)) ys))
         \<lparr>remaining_slots := remaining_slots st - ?to_add,
          current_folder_counts := (current_folder_counts st)(f := current_folder_counts st f + ?to_add),
          rng_state := g'\<rparr>)"
      by blast
    then show ?thesis using True assms
      by (simp add: step3_folder_def Let_def)
  next
    case False
    then have "step3_folder single fr t st f = Inr st"
      using assms by (auto simp: step3_folder_def Let_def)
    then show ?thesis by (simp add: pick_from_refl)
  qed
qed

lemma step4_pick:
  "\<exists>st'. step4 single st = Inr st' \<and> pick_from single st st'"
proof -
  let ?pool = "all_remaining_artworks single (selected_art_ids st)"
  show ?thesis
  proof (cases "0 < remaining_slots st \<and> remaining_slots st \<le> int (length ?pool)")
    case True
    then obtain ys g' where s: "random_sample (rng_state st) ?pool (remaining_slots st) = Inr (ys, g')"
      and l: "int (length ys) = remaining_slots st" and m: "mset ys \<subseteq># mset ?pool"
      using random_sample_ok[of "remaining_slots st" ?pool "rng_state st"] by auto
    have "pick_from single st ((add_selected ''fill_to_target'' st ys)\<lparr>remaining_slots := 0, rng_state := g'\<rparr>)"
      by (rule pick_from_add[of "''fill_to_target''" ys]) (use l m in simp_all)
    then show ?thesis using True s
      by (simp add: step4_def Let_def)
  next
    case False
    then have "step4 single st = Inr st \<or>
       step4 single st = Inr (st\<lparr>warnings := warnings st @ [Cannot_reach_target (length ?pool)]\<rparr>)"
      by (auto simp: step4_def Let_def)
    then show ?thesis by (auto simp: pick_from_refl)
  qed
qed

lemma preservedD: "preserved single P \<Longrightarrow> pick_from single s s' \<Longrightarrow> P s \<Longrightarrow> P s'"
  unfolding preserved_def by blast

lemma for_each_inv:
  assumes pres: "preserved single P"
  shows "\<forall>x\<in>set xs. \<forall>s. \<exists>s'. body s x = Inr s' \<and> pick_from single s s' \<Longrightarrow> P s \<Longrightarrow>
         \<exists>s'. for_each body xs s = Inr s' \<and> P s'"
proof (induction xs arbitrary: s)
  case Nil
  then show ?case by simp
next
  case (Cons x xs)
  have "\<exists>s1. body s x = Inr s1 \<and> pick_from single s s1"
    using Cons.prems(1) by simp
  then obtain s1 where b: "body s x = Inr s1" and p: "pick_from single s s1"
    by blast
  have "P s1" using preservedD[OF pres p Cons.prems(2)] .
  moreover have "\<forall>x\<in>set xs. \<forall>s. \<exists>s'. body s x = Inr s' \<and> pick_from single s s'"
    using Cons.prems(1) by simp
  ultimately obtain s' where "for_each body xs s1 = Inr s'" "P s'"
    using Cons.IH by blast
  with b show ?case by simp
qed

lemma step2_inv:
  assumes pres: "preserved single P" and "P st"
  shows "\<exists>st'. step2 single m st = Inr st' \<and> P st'"
proof -
  have "P (st\<lparr>current_folder_counts := count_folders (selected_artworks st)\<rparr>)"
    by (rule preservedD[OF pres _ assms(2)]) (simp add: pick_from_refl)
  moreover have "\<forall>x\<in>set search_folder_names. \<forall>s. \<exists>s'. step2_folder single m s x = Inr s' \<and> pick_from single s s'"
    using step2_folder_pick by blast
  ultimately show ?thesis
    unfolding step2_def using for_each_inv[OF pres] by blast
qed

lemma step3_inv:
  assumes pres: "preserved single P" and "P st"
  shows "\<exists>st'. step3 single st = Inr st' \<and> P st'"
proof -
  define fr where "fr = map (\<lambda>folder. (folder, length (available_artworks single (selected_art_ids st) folder))) search_folder_names"
  have k: "\<And>x. x \<in> set search_folder_names \<Longrightarrow> \<exists>c. map_of fr x = Some c"
    unfolding fr_def by (simp add: map_of_map_restrict)
  have "\<forall>x\<in>set search_folder_names. \<forall>s. \<exists>s'. step3_folder single fr (sum_list (map snd fr)) s x = Inr s' \<and> pick_from single s s'"
    using k step3_folder_pick by blast
  then have "\<exists>st'. for_each (step3_folder single fr (sum_list (map snd fr))) search_folder_names st = Inr st' \<and> P st'"
    using for_each_inv[OF pres] assms(2) by blast
  then show ?thesis
    unfolding step3_def Let_def fr_def[symmetric] using assms(2) by auto
qed

lemma step4_inv:
  assumes pres: "preserved single P" and "P st"
  shows "\<exists>st'. step4 single st = Inr st' \<and> P st'"
  using step4_pick[of single st] preservedD[OF pres] assms(2) by blast

lemma steps_inv:
  assumes pres: "preserved single P" and "P st"
  shows "\<exists>st2 st3 st4. step2 single m st = Inr st2 \<and> step3 single st2 = Inr st3 \<and>
           step4 single st3 = Inr st4 \<and> P st3 \<and> P st4"
proof -
  obtain st2 where 2: "step2 single m st = Inr st2" "P st2"
    using step2_inv[OF assms] by blast
  obtain st3 where 3: "step3 single st2 = Inr st3" "P st3"
    using step3_inv[OF pres 2(2)] by blast
  obtain st4 where 4: "step4 single st3 = Inr st4" "P st4"
    using step4_inv[OF pres 3(2)] by blast
  from 2 3 4 show ?thesis by blast
qed

subsection \<open>Size of the selection\<close>

lemma art_id_image_mk:
  "art_id ` (\<lambda>(a, folder). \<lparr>art_id = a, search_folders = folder, selection_reason = reason\<rparr>) ` set picked
     = fst ` set picked"
  by (force simp: image_iff split: prod.splits)

lemma preserved_count_inv: "preserved single (count_inv T M)"
  unfolding preserved_def
proof (intro allI impI)
  fix s s'
  assume "pick_from single s s'" and inv: "count_inv T M s"
  then obtain reason picked where
    sel: "selected_artworks s' = selected_artworks s @
          map (\<lambda>(a, folder). \<lparr>art_id = a, search_folders = folder, selection_reason = reason\<rparr>)
            picked"
    and ids: "selected_art_ids s' = selected_art_ids s \<union> fst ` set picked"
    and rem: "remaining_slots s' = remaining_slots s - int (length picked)"
    and le: "0 \<le> remaining_slots s \<longrightarrow> int (length picked) \<le> remaining_slots s"
    unfolding pick_from_def by blast
  have "art_id ` set (selected_artworks s') = art_id ` set (selected_artworks s) \<union> fst ` set picked"
    unfolding sel by (simp add: image_Un art_id_image_mk)
  then show "count_inv T M s'"
    using inv ids rem le sel unfolding count_inv_def by auto
qed

lemma subset_run_alt:
  "subset_run g rows target_size m =
     (let st = start_state g rows target_size; single = single_folder_artworks (analyze_rows rows)
      in if remaining_slots st \<le> 0 then
           Inr (st\<lparr>selected_artworks :=
                     slice_to (fst (random_shuffle g (selected_artworks st))) (clamped rows target_size),
                   rng_state := snd (random_shuffle g (selected_artworks st))\<rparr>)
         else
           (case step2 single m st of
              Inl e \<Rightarrow> Inl e
            | Inr st2 \<Rightarrow>
                (case step3 single st2 of
                   Inl e \<Rightarrow> Inl e
                 | Inr st3 \<Rightarrow>
                     (case step4 single st3 of
                        Inl e \<Rightarrow> Inl e
                      | Inr st4 \<Rightarrow>
                          Inr (st4\<lparr>selected_artworks :=
                                      fst (random_shuffle (rng_state st4) (selected_artworks st4)),
                                    rng_state :=
                                      snd (random_shuffle (rng_state st4) (selected_artworks st4))\<rparr>)))))"
  by (simp add: subset_run_def start_state_def clamped_def Let_def analyze_rows_all min_def
      cong: sum.case_cong)

lemma start_state_fields:
  "selected_artworks (start_state g rows t) =
     map (\<lambda>(a, folder). \<lparr>art_id = a, search_folders = folder, selection_reason = ''multi_folder''\<rparr>)
       (multi_folder_artworks (analyze_rows rows))"
  "selected_art_ids (start_state g rows t) = fst ` set (multi_folder_artworks (analyze_rows rows))"
  "remaining_slots (start_state g rows t) =
     clamped rows t - int (length (multi_folder_artworks (analyze_rows rows)))"
  by (simp_all add: start_state_def step1_def add_selected_def Let_def clamped_def
      analyze_rows_all min_def)

lemma start_count_inv:
  "0 < remaining_slots (start_state g rows t) \<Longrightarrow>
   count_inv (clamped rows t) (fst ` set (multi_folder_artworks (analyze_rows rows)))
     (start_state g rows t)"
  by (simp add: count_inv_def start_state_fields art_id_image_mk)

lemma map_fst_all_remaining:
  "map fst (all_remaining_artworks single ids) = filter (\<lambda>a. a \<notin> ids) (concat (map snd single))"
  unfolding all_remaining_artworks_def
  by (induction single) (auto simp: comp_def)

lemma rows_ids_cover:
  "fst ` set rows \<subseteq> fst ` set (multi_folder_artworks (analyze_rows rows)) \<union>
      set (concat (map snd (single_folder_artworks (analyze_rows rows))))"
proof -
  have "set (concat (map snd (single_folder_artworks (analyze_rows rows)))) =
          set (map fst (filter (\<lambda>r. \<not> is_multi r) rows))"
    using analyze_rows_single_values[of rows] by (metis set_mset_mset)
  then show ?thesis
    by (auto simp: analyze_rows_multi image_iff)
qed

lemma pool_large_enough:
  assumes inv: "count_inv T M st" and T: "T \<le> int (card A)" and fin: "finite A"
    and cover: "A \<subseteq> M \<union> set (concat (map snd single))"
  shows "remaining_slots st \<le> int (length (all_remaining_artworks single (selected_art_ids st)))"
proof -
  let ?ids = "selected_art_ids st"
  let ?pool = "all_remaining_artworks single ?ids"
  have ids: "?ids = art_id ` set (selected_artworks st)" and M: "M \<subseteq> ?ids"
    and len: "int (length (selected_artworks st)) + remaining_slots st = T"
    using inv by (auto simp: count_inv_def)
  have "card ?ids \<le> length (selected_artworks st)"
    unfolding ids by (metis card_image_le card_length le_trans List.finite_set)
  moreover have "card A - card ?ids \<le> card (A - ?ids)"
    by (rule diff_card_le_card_Diff) (simp add: ids)
  moreover have "A - ?ids \<subseteq> set (map fst ?pool)"
    unfolding map_fst_all_remaining using cover M by auto
  then have "card (A - ?ids) \<le> length ?pool"
    by (metis card_mono card_length le_trans List.finite_set length_map)
  ultimately show ?thesis using T len by linarith
qed

lemma step4_fills:
  assumes "remaining_slots st \<le> int (length (all_remaining_artworks single (selected_art_ids st)))"
    and "0 \<le> remaining_slots st" and "step4 single st = Inr st'"
  shows "remaining_slots st' = 0"
proof (cases "0 < remaining_slots st")
  case True
  obtain ys g' where "random_sample (rng_state st) (all_remaining_artworks single (selected_art_ids st)) (remaining_slots st) = Inr (ys, g')"
    using random_sample_ok[OF assms(2) assms(1)] by blast
  then show ?thesis using assms True by (auto simp: step4_def Let_def)
next
  case False
  then show ?thesis using assms by (auto simp: step4_def)
qed

lemma subset_run_late:
  assumes pres: "preserved (single_folder_artworks (analyze_rows rows)) P"
    and P: "P (start_state g rows t)"
    and pos: "0 < remaining_slots (start_state g rows t)"
  shows "\<exists>st4. subset_run g rows t m =
            Inr (st4\<lparr>selected_artworks := fst (random_shuffle (rng_state st4) (selected_artworks st4)),
                     rng_state := snd (random_shuffle (rng_state st4) (selected_artworks st4))\<rparr>) \<and>
          P st4 \<and> remaining_slots st4 = 0 \<and> int (length (selected_artworks st4)) = clamped rows t"
proof -
  let ?single = "single_folder_artworks (analyze_rows rows)"
  let ?M = "fst ` set (multi_folder_artworks (analyze_rows rows))"
  let ?Q = "\<lambda>s. P s \<and> count_inv (clamped rows t) ?M s"
  have "preserved ?single ?Q"
    using pres preserved_count_inv[of ?single "clamped rows t" ?M] unfolding preserved_def by blast
  moreover have "?Q (start_state g rows t)"
    using P start_count_inv[OF pos] by simp
  ultimately obtain st2 st3 st4 where s: "step2 ?single m (start_state g rows t) = Inr st2"
    "step3 ?single st2 = Inr st3" "step4 ?single st3 = Inr st4" and Q3: "?Q st3" and Q4: "?Q st4"
    using steps_inv[of ?single ?Q "start_state g rows t" m] by blast
  have "remaining_slots st3 \<le> int (length (all_remaining_artworks ?single (selected_art_ids st3)))"
    by (rule pool_large_enough[of "clamped rows t" ?M st3 "fst ` set rows"])
       (use Q3 rows_ids_cover in \<open>simp_all add: clamped_def\<close>)
  then have r: "remaining_slots st4 = 0"
    using step4_fills[OF _ _ s(3)] Q3 by (simp add: count_inv_def)
  then have "int (length (selected_artworks st4)) = clamped rows t"
    using Q4 by (simp add: count_inv_def)
  with s r Q4 pos show ?thesis
    by (intro exI[of _ st4]) (simp add: subset_run_alt Let_def)
qed

lemma subset_run_early:
  assumes "remaining_slots (start_state g rows t) \<le> 0"
  shows "subset_run g rows t m =
           Inr ((start_state g rows t)\<lparr>selected_artworks :=
                     slice_to (fst (random_shuffle g (selected_artworks (start_state g rows t)))) (clamped rows t),
                   rng_state := snd (random_shuffle g (selected_artworks (start_state g rows t)))\<rparr>)"
  using assms by (simp add: subset_run_alt Let_def)

lemma length_shuffle: "length (fst (random_shuffle g xs)) = length xs"
  by (simp add: random_shuffle_def length_draw)

lemma clamped_nonneg: "0 \<le> t \<Longrightarrow> 0 \<le> clamped rows t"
  by (simp add: clamped_def)

lemma selection_size_rows:
  assumes "0 \<le> target_size"
  shows "\<exists>sel. analyze_and_create_subset g rows target_size min_per_search = Inr sel \<and>
           int (length sel) \<le> target_size \<and>
           (int (length sel) = target_size \<or> int (card (fst ` set rows)) < target_size) \<and>
           int (length sel) = min target_size (int (card (fst ` set rows)))"
proof (cases "remaining_slots (start_state g rows target_size) \<le> 0")
  case True
  let ?st = "start_state g rows target_size"
  have "clamped rows target_size \<le> int (length (selected_artworks ?st))"
    using True by (simp add: start_state_fields)
  then have "int (length (slice_to (fst (random_shuffle g (selected_artworks ?st))) (clamped rows target_size)))
      = clamped rows target_size"
    using clamped_nonneg[OF assms, of rows] by (simp add: slice_to_def length_shuffle)
  then show ?thesis
    unfolding analyze_and_create_subset_def subset_run_early[OF True]
    by (auto simp: clamped_def)
next
  case False
  then have pos: "0 < remaining_slots (start_state g rows target_size)" by simp
  have "preserved (single_folder_artworks (analyze_rows rows)) (\<lambda>s. True)"
    by (simp add: preserved_def)
  from subset_run_late[OF this _ pos, of min_per_search]
  obtain st4 where "subset_run g rows target_size min_per_search =
            Inr (st4\<lparr>selected_artworks := fst (random_shuffle (rng_state st4) (selected_artworks st4)),
                     rng_state := snd (random_shuffle (rng_state st4) (selected_artworks st4))\<rparr>)"
    and "int (length (selected_artworks st4)) = clamped rows target_size"
    by auto
  then show ?thesis
    unfolding analyze_and_create_subset_def
    by (auto simp: clamped_def length_shuffle)
qed

subsection \<open>No artwork is selected twice\<close>

lemma distinct_mset_sub:
  assumes "mset xs \<subseteq># mset ys" and "distinct ys"
  shows "distinct xs"
proof -
  obtain C where "mset ys = mset xs + C"
    using assms(1) by (auto simp: mset_subset_eq_exists_conv)
  moreover obtain zs where "C = mset zs"
    using ex_mset[of C] by blast
  ultimately have "mset ys = mset (xs @ zs)" by simp
  then have "distinct (xs @ zs)"
    using assms(2) mset_eq_imp_distinct_iff by blast
  then show ?thesis by simp
qed

lemma map_art_id_mk:
  "map art_id (map (\<lambda>(a, folder). \<lparr>art_id = a, search_folders = folder, selection_reason = reason\<rparr>) picked)
     = map fst picked"
  by (induction picked) auto

lemma preserved_distinct_inv:
  assumes d: "distinct (concat (map snd single))"
  shows "preserved single distinct_inv"
  unfolding preserved_def
proof (intro allI impI)
  fix s s'
  assume "pick_from single s s'" and inv: "distinct_inv s"
  then obtain reason picked where
    sel: "selected_artworks s' = selected_artworks s @
          map (\<lambda>(a, folder). \<lparr>art_id = a, search_folders = folder, selection_reason = reason\<rparr>)
            picked"
    and ids: "selected_art_ids s' = selected_art_ids s \<union> fst ` set picked"
    and sub: "mset picked \<subseteq># mset (all_remaining_artworks single (selected_art_ids s))"
    unfolding pick_from_def by blast
  let ?pool = "all_remaining_artworks single (selected_art_ids s)"
  have m: "mset (map fst picked) \<subseteq># mset (map fst ?pool)"
    using sub by (simp add: image_mset_subseteq_mono)
  have dp: "distinct (map fst ?pool)"
    unfolding map_fst_all_remaining using d by simp
  have 1: "distinct (map fst picked)"
    using distinct_mset_sub[OF m dp] .
  have "set (map fst picked) \<subseteq> set (map fst ?pool)"
    using set_mset_mono[OF m] by simp
  then have 2: "set (map fst picked) \<inter> selected_art_ids s = {}"
    unfolding map_fst_all_remaining by auto
  have 3: "map art_id (selected_artworks s') = map art_id (selected_artworks s) @ map fst picked"
    unfolding sel map_append map_art_id_mk ..
  have 4: "selected_art_ids s = set (map art_id (selected_artworks s))"
    using inv by (simp add: distinct_inv_def)
  show "distinct_inv s'"
    unfolding distinct_inv_def 3 using inv 1 2 ids 4
    by (auto simp: distinct_inv_def sel image_Un art_id_image_mk)
qed

lemma distinct_rows_single:
  assumes "distinct (map fst rows)"
  shows "distinct (concat (map snd (single_folder_artworks (analyze_rows rows))))"
proof -
  have "distinct (map fst (filter (\<lambda>r. \<not> is_multi r) rows))"
    using assms by (rule distinct_map_filter)
  then show ?thesis
    using analyze_rows_single_values[of rows] mset_eq_imp_distinct_iff by blast
qed

lemma start_distinct_inv:
  assumes "distinct (map fst rows)"
  shows "distinct_inv (start_state g rows t)"
proof -
  have "map art_id (selected_artworks (start_state g rows t)) = map fst (filter is_multi rows)"
    unfolding start_state_fields map_art_id_mk analyze_rows_multi by (simp add: comp_def)
  moreover have "distinct (map fst (filter is_multi rows))"
    using assms by (rule distinct_map_filter)
  ultimately show ?thesis
    by (simp add: distinct_inv_def start_state_fields art_id_image_mk)
qed

lemma distinct_map_shuffle:
  "distinct (map f (fst (random_shuffle g xs))) = distinct (map f xs)"
proof -
  have "mset (map f (fst (random_shuffle g xs))) = mset (map f xs)"
    by (simp add: random_shuffle_perm)
  then show ?thesis by (rule mset_eq_imp_distinct_iff)
qed

lemma distinct_map_slice_to: "distinct (map f xs) \<Longrightarrow> distinct (map f (slice_to xs n))"
  by (simp add: slice_to_def take_map[symmetric] del: take_map)

text \<open>
  C9. When the rows of the input carry distinct ids, the selector returns a selection in
  which no \<open>art_id\<close> occurs twice: every later step draws only from artworks whose id is
  not in \<open>selected_art_ids\<close>, and the final shuffle only permutes.
\<close>

theorem no_duplicate_selection:
  assumes "distinct (map fst rows)"
  shows "\<exists>sel. analyze_and_create_subset g rows target_size min_per_search = Inr sel \<and>
           distinct (map art_id sel)"
proof (cases "remaining_slots (start_state g rows target_size) \<le> 0")
  case True
  have "distinct (map art_id (selected_artworks (start_state g rows target_size)))"
    using start_distinct_inv[OF assms] by (simp add: distinct_inv_def)
  then show ?thesis
    unfolding analyze_and_create_subset_def subset_run_early[OF True]
    by (simp add: distinct_map_slice_to distinct_map_shuffle)
next
  case False
  then have pos: "0 < remaining_slots (start_state g rows target_size)" by simp
  from subset_run_late[OF preserved_distinct_inv[OF distinct_rows_single[OF assms]]
      start_distinct_inv[OF assms] pos, of min_per_search]
  obtain st4 where "subset_run g rows target_size min_per_search =
            Inr (st4\<lparr>selected_artworks := fst (random_shuffle (rng_state st4) (selected_artworks st4)),
                     rng_state := snd (random_shuffle (rng_state st4) (selected_artworks st4))\<rparr>)"
    and "distinct_inv st4"
    by auto
  then show ?thesis
    unfolding analyze_and_create_subset_def
    by (simp add: distinct_map_shuffle distinct_inv_def)
qed

theorem no_duplicate_selection_witness:
  "distinct (map fst [(1::int, ''search_1''), (2, ''search_1;search_2''), (3, ''search_2''), (4, ''A'')]) \<and>
   (\<exists>sel. analyze_and_create_subset [3, 1, 4, 1, 5]
            [(1, ''search_1''), (2, ''search_1;search_2''), (3, ''search_2''), (4, ''A'')] 3 1 = Inr sel \<and>
          distinct (map art_id sel))"
  using no_duplicate_selection [of
      "[(1, ''search_1''), (2, ''search_1;search_2''), (3, ''search_2''), (4, ''A'')]"
      "[3, 1, 4, 1, 5]" 3 1]
  by simp

subsection \<open>Selection reasons\<close>

lemma length_str_split: "length (str_split c s) = Suc (count_list s c)"
  by (induction s) (auto split: list.splits)

lemma str_split_two: "2 \<le> length (str_split c s) \<longleftrightarrow> c \<in> set s"
  unfolding length_str_split using count_list_0_iff[of s c] by auto

lemma snd_all_remaining:
  "snd ` set (all_remaining_artworks single ids) \<subseteq> fst ` set single"
  unfolding all_remaining_artworks_def by force

lemma preserved_reason_inv:
  assumes k: "\<forall>f \<in> fst ` set single. CHR '';'' \<notin> set f"
  shows "preserved single reason_inv"
  unfolding preserved_def
proof (intro allI impI)
  fix s s'
  assume "pick_from single s s'" and inv: "reason_inv s"
  then obtain reason picked where
    r: "reason \<in> {''min_requirement'', ''proportional'', ''fill_to_target''}"
    and sel: "selected_artworks s' = selected_artworks s @
          map (\<lambda>(a, folder). \<lparr>art_id = a, search_folders = folder, selection_reason = reason\<rparr>)
            picked"
    and sub: "mset picked \<subseteq># mset (all_remaining_artworks single (selected_art_ids s))"
    unfolding pick_from_def by blast
  have "set picked \<subseteq> set (all_remaining_artworks single (selected_art_ids s))"
    using set_mset_mono[OF sub] by simp
  then have "snd ` set picked \<subseteq> fst ` set single"
    using snd_all_remaining[of single "selected_art_ids s"] by blast
  then have nosemi: "\<forall>p \<in> set picked. CHR '';'' \<notin> set (snd p)"
    using k by blast
  let ?Q = "\<lambda>x. selection_reason x \<in> {''multi_folder'', ''min_requirement'', ''proportional'', ''fill_to_target''} \<and>
        (CHR '';'' \<in> set (search_folders x) \<longleftrightarrow> selection_reason x = ''multi_folder'')"
  have neq: "reason \<noteq> ''multi_folder''" and four: "reason \<in> {''multi_folder'', ''min_requirement'', ''proportional'', ''fill_to_target''}"
    using r by auto
  have new: "?Q (case p of (a, folder) \<Rightarrow> \<lparr>art_id = a, search_folders = folder, selection_reason = reason\<rparr>)"
    if "p \<in> set picked" for p
    using nosemi that neq four by (cases p) fastforce
  have old: "?Q x" if "x \<in> set (selected_artworks s)" for x
    using inv that unfolding reason_inv_def by blast
  show "reason_inv s'"
    unfolding reason_inv_def sel
  proof
    fix x
    assume "x \<in> set (selected_artworks s @
          map (\<lambda>(a, folder). \<lparr>art_id = a, search_folders = folder, selection_reason = reason\<rparr>) picked)"
    then consider "x \<in> set (selected_artworks s)"
      | p where "p \<in> set picked" "x = (case p of (a, folder) \<Rightarrow> \<lparr>art_id = a, search_folders = folder, selection_reason = reason\<rparr>)"
      by auto
    then show "?Q x"
    proof cases
      case 1
      then show ?thesis by (rule old)
    next
      case 2
      then show ?thesis using new by blast
    qed
  qed
qed

lemma single_keys_no_semicolon:
  "\<forall>f \<in> fst ` set (single_folder_artworks (analyze_rows rows)). CHR '';'' \<notin> set f"
  unfolding analyze_rows_single_keys by (auto simp: is_multi_def)

lemma start_reason_inv: "reason_inv (start_state g rows t)"
  unfolding reason_inv_def start_state_fields analyze_rows_multi
  by (auto simp: is_multi_def)

lemma set_shuffle: "set (fst (random_shuffle g xs)) = set xs"
  using random_shuffle_perm[of g xs] by (metis set_mset_mset)

lemma set_slice_to: "set (slice_to xs n) \<subseteq> set xs"
  by (simp add: slice_to_def set_take_subset)

text \<open>
  C2. Every record of the returned selection carries one of the four reasons the source
  writes (\<open>multi_folder\<close> is the reason the specification calls \<open>multi_source\<close>), and a
  record whose folder list, the split of its \<open>search_folders\<close> string at semicolons, has
  two or more entries carries \<open>multi_folder\<close>; no other record does.
\<close>

theorem selection_reason_audit:
  "\<exists>sel. analyze_and_create_subset g rows target_size min_per_search = Inr sel \<and>
     (\<forall>r\<in>set sel.
        selection_reason r \<in>
          {''multi_folder'', ''min_requirement'', ''proportional'', ''fill_to_target''} \<and>
        (2 \<le> length (str_split CHR '';'' (search_folders r)) \<longleftrightarrow>
           selection_reason r = ''multi_folder''))"
proof (cases "remaining_slots (start_state g rows target_size) \<le> 0")
  case True
  have "set (slice_to (fst (random_shuffle g (selected_artworks (start_state g rows target_size))))
          (clamped rows target_size)) \<subseteq> set (selected_artworks (start_state g rows target_size))"
    using set_slice_to set_shuffle by fast
  then show ?thesis
    unfolding analyze_and_create_subset_def subset_run_early[OF True] str_split_two
    using start_reason_inv[of g rows target_size] unfolding reason_inv_def
    by (simp add: subset_iff)
next
  case False
  then have pos: "0 < remaining_slots (start_state g rows target_size)" by simp
  from subset_run_late[OF preserved_reason_inv[OF single_keys_no_semicolon]
      start_reason_inv pos, of min_per_search]
  obtain st4 where "subset_run g rows target_size min_per_search =
            Inr (st4\<lparr>selected_artworks := fst (random_shuffle (rng_state st4) (selected_artworks st4)),
                     rng_state := snd (random_shuffle (rng_state st4) (selected_artworks st4))\<rparr>)"
    and "reason_inv st4"
    by auto
  then show ?thesis
    unfolding analyze_and_create_subset_def str_split_two reason_inv_def
    by (simp add: set_shuffle)
qed

lemma run_example:
  "analyze_and_create_subset [3, 1, 4, 1, 5]
     [(1, ''search_1''), (2, ''search_1;search_2''), (3, ''search_2''), (4, ''A'')] 3 1 =
   Inr [\<lparr>art_id = 1, search_folders = ''search_1'', selection_reason = ''proportional''\<rparr>,
        \<lparr>art_id = 4, search_folders = ''A'', selection_reason = ''fill_to_target''\<rparr>,
        \<lparr>art_id = 2, search_folders = ''search_1;search_2'', selection_reason = ''multi_folder''\<rparr>]"
  by code_simp

theorem selection_reason_audit_witness:
  "\<exists>sel. analyze_and_create_subset [3, 1, 4, 1, 5]
       [(1, ''search_1''), (2, ''search_1;search_2''), (3, ''search_2''), (4, ''A'')] 3 1 = Inr sel \<and>
     \<lparr>art_id = 2, search_folders = ''search_1;search_2'', selection_reason = ''multi_folder''\<rparr>
       \<in> set sel \<and>
     (\<forall>r\<in>set sel.
        selection_reason r \<in>
          {''multi_folder'', ''min_requirement'', ''proportional'', ''fill_to_target''} \<and>
        (2 \<le> length (str_split CHR '';'' (search_folders r)) \<longleftrightarrow>
           selection_reason r = ''multi_folder''))"
  using selection_reason_audit [of "[3, 1, 4, 1, 5]"
      "[(1, ''search_1''), (2, ''search_1;search_2''), (3, ''search_2''), (4, ''A'')]" 3 1]
  unfolding run_example by simp

subsection \<open>Errors and the target size\<close>

lemma analyze_total: "\<exists>sel. analyze_and_create_subset g rows t m = Inr sel"
proof (cases "remaining_slots (start_state g rows t) \<le> 0")
  case True
  then show ?thesis
    unfolding analyze_and_create_subset_def subset_run_early[OF True] by simp
next
  case False
  then have pos: "0 < remaining_slots (start_state g rows t)" by simp
  have "preserved (single_folder_artworks (analyze_rows rows)) (\<lambda>s. True)"
    by (simp add: preserved_def)
  from subset_run_late[OF this _ pos, of m]
  obtain st where "subset_run g rows t m = Inr st" by auto
  then show ?thesis
    unfolding analyze_and_create_subset_def by simp
qed









subsection \<open>Size of the selection, on the data frame\<close>

text \<open>
  C6, counterexample. Three rows with distinct ids, \<open>target_size = -1\<close>: the selection
  has two records, more than \<open>target_size\<close>.
\<close>

theorem selection_size_counterexample:
  "analyze_and_create_subset_csv [] [(Some (Int_cell 1), Some ''search_1;search_2''), (Some (Int_cell 2), Some ''search_2;search_3''), (Some (Int_cell 3), Some ''search_1;search_3'')] (- 1) 10 =
     Inr [\<lparr>art_id = 1, search_folders = ''search_1;search_2'', selection_reason = ''multi_folder''\<rparr>,
          \<lparr>art_id = 2, search_folders = ''search_2;search_3'', selection_reason = ''multi_folder''\<rparr>] \<and>
   \<not> int (length [\<lparr>art_id = 1, search_folders = ''search_1;search_2'', selection_reason = ''multi_folder''\<rparr>,
          \<lparr>art_id = 2, search_folders = ''search_2;search_3'', selection_reason = ''multi_folder''\<rparr>]) \<le> - 1 \<and>
   map_sum id (\<lambda>rows. distinct (map fst rows)) (read_rows (dropna [(Some (Int_cell 1), Some ''search_1;search_2''), (Some (Int_cell 2), Some ''search_2;search_3''), (Some (Int_cell 3), Some ''search_1;search_3'')])) = Inr True"
  by code_simp

text \<open>
  C6, amended. For a data frame whose ids convert to integers and a \<open>target_size\<close>
  that is not negative, the call returns without error; the selection has at most
  \<open>target_size\<close> records, exactly \<open>target_size\<close> unless the frame has fewer distinct ids
  than that, in which case the target is clamped to their number and that many records
  are returned. (With distinct ids the number of distinct ids is the number of rows;
  the statement does not need the ids to be distinct.)
\<close>

theorem selection_size_nonnegative:
  assumes "0 \<le> target_size" and "read_rows (dropna df) = Inr rows"
  shows "\<exists>sel. analyze_and_create_subset_csv g df target_size min_per_search = Inr sel \<and>
           int (length sel) \<le> target_size \<and>
           (int (length sel) = target_size \<or> int (card (fst ` set rows)) < target_size) \<and>
           int (length sel) = min target_size (int (card (fst ` set rows)))"
  unfolding analyze_and_create_subset_csv_def assms(2)
  using selection_size_rows[OF assms(1), of g rows min_per_search] by simp

lemma frame_converts_four:
  "read_rows (dropna [(Some (Int_cell 1), Some ''search_1''), (Some (Int_cell 2), Some ''search_1;search_2''), (None, Some ''search_3''), (Some (Int_cell 3), Some ''search_2''), (Some (Int_cell 4), Some ''A''), (Some (Int_cell 5), None)]) =
     Inr [(1, ''search_1''), (2, ''search_1;search_2''), (3, ''search_2''), (4, ''A'')]"
  by code_simp

theorem selection_size_nonnegative_witness:
  "(0::int) \<le> 3 \<and>
   read_rows (dropna [(Some (Int_cell 1), Some ''search_1''), (Some (Int_cell 2), Some ''search_1;search_2''), (None, Some ''search_3''), (Some (Int_cell 3), Some ''search_2''), (Some (Int_cell 4), Some ''A''), (Some (Int_cell 5), None)]) =
     Inr [(1, ''search_1''), (2, ''search_1;search_2''), (3, ''search_2''), (4, ''A'')] \<and>
   (\<exists>sel. analyze_and_create_subset_csv [3, 1, 4, 1, 5] [(Some (Int_cell 1), Some ''search_1''), (Some (Int_cell 2), Some ''search_1;search_2''), (None, Some ''search_3''), (Some (Int_cell 3), Some ''search_2''), (Some (Int_cell 4), Some ''A''), (Some (Int_cell 5), None)] 3 1 = Inr sel \<and>
          length sel = 3)"
proof -
  have a: "(0::int) \<le> 3" by simp
  have "\<exists>sel. analyze_and_create_subset_csv [3, 1, 4, 1, 5] [(Some (Int_cell 1), Some ''search_1''), (Some (Int_cell 2), Some ''search_1;search_2''), (None, Some ''search_3''), (Some (Int_cell 3), Some ''search_2''), (Some (Int_cell 4), Some ''A''), (Some (Int_cell 5), None)] 3 1 = Inr sel \<and>
          length sel = 3"
    using selection_size_nonnegative [OF a frame_converts_four, of "[3, 1, 4, 1, 5]" 1]
    by auto
  with a frame_converts_four show ?thesis by (intro conjI)
qed

subsection \<open>Step 4 always finds enough artworks\<close>

text \<open>
  Whenever steps 2 to 4 are reached, step 4 starts with at least \<open>remaining_slots\<close>
  unselected single-folder artworks, because the target was clamped to the number of
  distinct ids: the branch of lines 271-274 is never taken.
\<close>

lemma run_reaches_step4_with_enough:
  assumes pos: "0 < remaining_slots (start_state g rows t)"
  shows "\<exists>st2 st3.
           step2 (single_folder_artworks (analyze_rows rows)) m (start_state g rows t) = Inr st2 \<and>
           step3 (single_folder_artworks (analyze_rows rows)) st2 = Inr st3 \<and>
           remaining_slots st3 \<le>
             int (length (all_remaining_artworks (single_folder_artworks (analyze_rows rows))
                            (selected_art_ids st3)))"
proof -
  let ?single = "single_folder_artworks (analyze_rows rows)"
  let ?M = "fst ` set (multi_folder_artworks (analyze_rows rows))"
  let ?Q = "count_inv (clamped rows t) ?M"
  obtain st2 st3 where s: "step2 ?single m (start_state g rows t) = Inr st2"
    "step3 ?single st2 = Inr st3" and Q3: "?Q st3"
    using steps_inv[OF preserved_count_inv start_count_inv[OF pos], of ?single m] by blast
  have "remaining_slots st3 \<le> int (length (all_remaining_artworks ?single (selected_art_ids st3)))"
    by (rule pool_large_enough[of "clamped rows t" ?M st3 "fst ` set rows"])
       (use Q3 rows_ids_cover in \<open>simp_all add: clamped_def\<close>)
  with s show ?thesis by blast
qed

subsection \<open>Step 3: the allocation computed in floating point\<close>

text \<open>
  C7. Twenty-eight rows, eighteen of folder \<open>search_1\<close> and ten of \<open>search_2\<close>, none in
  several folders; \<open>target_size = 21\<close>, \<open>min_per_search = 0\<close>. Step 3 starts with 21
  slots and draws for \<open>search_1\<close>. The specification's allocation is 13, since
  \<open>21 \<times> 18 / 28 = 13.5\<close> and the remainder does not exceed one half; pool and budget
  do not cap it. The source computes \<open>21 * (18 / 28)\<close> in floating point, which is
  \<open>13.500000000000002\<close>, and draws 14.
\<close>

theorem allocation_rounding_failure:
  "map_sum id (\<lambda>sel. length (drawn_proportional ''search_1'' sel))
     (analyze_and_create_subset_csv []
     [(Some (Int_cell 1), Some ''search_1''),
      (Some (Int_cell 2), Some ''search_1''),
      (Some (Int_cell 3), Some ''search_1''),
      (Some (Int_cell 4), Some ''search_1''),
      (Some (Int_cell 5), Some ''search_1''),
      (Some (Int_cell 6), Some ''search_1''),
      (Some (Int_cell 7), Some ''search_1''),
      (Some (Int_cell 8), Some ''search_1''),
      (Some (Int_cell 9), Some ''search_1''),
      (Some (Int_cell 10), Some ''search_1''),
      (Some (Int_cell 11), Some ''search_1''),
      (Some (Int_cell 12), Some ''search_1''),
      (Some (Int_cell 13), Some ''search_1''),
      (Some (Int_cell 14), Some ''search_1''),
      (Some (Int_cell 15), Some ''search_1''),
      (Some (Int_cell 16), Some ''search_1''),
      (Some (Int_cell 17), Some ''search_1''),
      (Some (Int_cell 18), Some ''search_1''),
      (Some (Int_cell 19), Some ''search_2''),
      (Some (Int_cell 20), Some ''search_2''),
      (Some (Int_cell 21), Some ''search_2''),
      (Some (Int_cell 22), Some ''search_2''),
      (Some (Int_cell 23), Some ''search_2''),
      (Some (Int_cell 24), Some ''search_2''),
      (Some (Int_cell 25), Some ''search_2''),
      (Some (Int_cell 26), Some ''search_2''),
      (Some (Int_cell 27), Some ''search_2''),
      (Some (Int_cell 28), Some ''search_2'')] 21 0) = Inr 14 \<and>
   min (min (spec_allocation 21 18 28) 18) 21 = 13 \<and>
   target_to_add 21 18 28 = 14 \<and>
   fl (fl 21 * fl (18 / 28)) = 7599824371187713 / 562949953421312"
  by code_simp

subsection \<open>Step 2: the minimum per search folder\<close>

lemma inner_count:
  "foldl (\<lambda>c folder. c(str_strip folder := c (str_strip folder) + 1)) c0 xs f =
     c0 f + int (count_list (map str_strip xs) f)"
  by (induction xs arbitrary: c0) auto

lemma outer_count:
  "foldl (\<lambda>counts artwork.
         foldl (\<lambda>c folder. c(str_strip folder := c (str_strip folder) + 1)) counts
           (str_split CHR '';'' (search_folders artwork))) c0 sel f =
     c0 f + int (sum_list (map (\<lambda>r. count_list (folders_of r) f) sel))"
  by (induction sel arbitrary: c0) (auto simp: inner_count folders_of_def)

lemma count_folders_occurrences:
  "count_folders sel f = int (sum_list (map (\<lambda>r. count_list (folders_of r) f) sel))"
  by (simp add: count_folders_def outer_count)

lemma count_list_distinct: "distinct xs \<Longrightarrow> count_list xs f = (if f \<in> set xs then 1 else 0)"
  by (induction xs) auto

lemma occurrences_deduplicated:
  "deduplicated sel \<Longrightarrow>
   sum_list (map (\<lambda>r. count_list (folders_of r) f) sel) = folder_count f sel"
  by (induction sel) (auto simp: deduplicated_def folder_count_def count_list_distinct)

lemma count_folders_deduplicated:
  "deduplicated sel \<Longrightarrow> count_folders sel f = int (folder_count f sel)"
  by (simp add: count_folders_occurrences occurrences_deduplicated)

lemma folder_count_append:
  "folder_count f (xs @ ys) = folder_count f xs + folder_count f ys"
  by (simp add: folder_count_def)

lemma folders_of_name:
  "f \<in> set search_folder_names \<Longrightarrow>
   folders_of \<lparr>art_id = a, search_folders = f, selection_reason = reason\<rparr> = [f]"
  by (auto simp: search_folder_names_def folders_of_def str_strip_def is_space_def)

lemma folder_count_new:
  "f \<in> set search_folder_names \<Longrightarrow>
   folder_count f (map ((\<lambda>(a, folder). \<lparr>art_id = a, search_folders = folder, selection_reason = reason\<rparr>) \<circ>
      (\<lambda>a. (a, f))) ys) = length ys"
  by (induction ys) (auto simp: folder_count_def folders_of_name)

lemma for_each_append:
  "for_each body (xs @ ys) s =
     (case for_each body xs s of Inl e \<Rightarrow> Inl e | Inr s' \<Rightarrow> for_each body ys s')"
  by (induction xs arbitrary: s) (auto split: sum.splits)

text \<open>What one iteration of the loop does.\<close>

lemma step2_folder_result:
  fixes single m st f
  defines "needed \<equiv> max 0 (m - current_folder_counts st f)"
  defines "to_add \<equiv> min (min needed (int (length (available_artworks single (selected_art_ids st) f))))
                       (remaining_slots st)"
  shows "(0 < needed \<and> 0 < remaining_slots st \<and> 0 < to_add \<and>
          (\<exists>ys g'. int (length ys) = to_add \<and>
             step2_folder single m st f =
               Inr ((add_selected ''min_requirement'' st (map (\<lambda>a. (a, f)) ys))
                      \<lparr>remaining_slots := remaining_slots st - to_add,
                       current_folder_counts :=
                         (current_folder_counts st)(f := current_folder_counts st f + to_add),
                       rng_state := g'\<rparr>))) \<or>
         (\<not> (0 < needed \<and> 0 < remaining_slots st \<and> 0 < to_add) \<and>
          step2_folder single m st f = Inr st)"
proof (cases "0 < needed \<and> 0 < remaining_slots st \<and> 0 < to_add")
  case True
  let ?av = "available_artworks single (selected_art_ids st) f"
  have "0 \<le> to_add" "to_add \<le> int (length ?av)"
    using True by (auto simp: to_add_def)
  then obtain ys g' where s: "random_sample (rng_state st) ?av to_add = Inr (ys, g')"
    and l: "int (length ys) = to_add"
    using random_sample_ok[of to_add ?av "rng_state st"] by blast
  have "step2_folder single m st f =
               Inr ((add_selected ''min_requirement'' st (map (\<lambda>a. (a, f)) ys))
                      \<lparr>remaining_slots := remaining_slots st - to_add,
                       current_folder_counts :=
                         (current_folder_counts st)(f := current_folder_counts st f + to_add),
                       rng_state := g'\<rparr>)"
    using True s unfolding step2_folder_def needed_def to_add_def Let_def by simp
  with True l show ?thesis by blast
next
  case False
  then have "step2_folder single m st f = Inr st"
    unfolding step2_folder_def needed_def to_add_def Let_def by auto
  with False show ?thesis by blast
qed

lemma step2_folder_other:
  assumes "step2_folder single m st f' = Inr st'" and "f' \<noteq> f"
  shows "current_folder_counts st' f = current_folder_counts st f \<and>
         folder_count f (selected_artworks st) \<le> folder_count f (selected_artworks st')"
  using step2_folder_result[of m st f' single] assms
  by (auto simp: add_selected_def folder_count_append)

lemma step2_folder_mono:
  assumes "step2_folder single m st f' = Inr st'"
  shows "folder_count f (selected_artworks st) \<le> folder_count f (selected_artworks st')"
  using step2_folder_result[of m st f' single] assms
  by (auto simp: add_selected_def folder_count_append)

lemma for_each_step2_other:
  "f \<notin> set xs \<Longrightarrow> for_each (step2_folder single m) xs st = Inr st' \<Longrightarrow>
   current_folder_counts st' f = current_folder_counts st f \<and>
   folder_count f (selected_artworks st) \<le> folder_count f (selected_artworks st')"
proof (induction xs arbitrary: st)
  case Nil
  then show ?case by simp
next
  case (Cons x xs)
  from Cons.prems(2) obtain s1 where 1: "step2_folder single m st x = Inr s1"
    and 2: "for_each (step2_folder single m) xs s1 = Inr st'"
    by (auto split: sum.splits)
  have "x \<noteq> f" "f \<notin> set xs" using Cons.prems(1) by auto
  from step2_folder_other[OF 1 this(1)] Cons.IH[OF this(2) 2]
  show ?case by simp
qed

lemma for_each_step2_total:
  "\<exists>st'. for_each (step2_folder single m) xs st = Inr st' \<and>
         folder_count f (selected_artworks st) \<le> folder_count f (selected_artworks st')"
proof (induction xs arbitrary: st)
  case Nil
  then show ?case by simp
next
  case (Cons x xs)
  obtain s1 where 1: "step2_folder single m st x = Inr s1"
    using step2_folder_pick[of single m st x] by blast
  obtain st' where 2: "for_each (step2_folder single m) xs s1 = Inr st'"
    and 3: "folder_count f (selected_artworks s1) \<le> folder_count f (selected_artworks st')"
    using Cons.IH[of s1] by blast
  from step2_folder_mono[OF 1, of f] 1 2 3 show ?case by auto
qed

lemma step2_folder_own:
  assumes f: "f \<in> set search_folder_names"
    and n1: "max 0 (m - current_folder_counts st f) \<le>
             int (length (available_artworks single (selected_art_ids st) f))"
    and n2: "max 0 (m - current_folder_counts st f) \<le> remaining_slots st"
    and c: "current_folder_counts st f \<le> int (folder_count f (selected_artworks st))"
  shows "\<exists>st'. step2_folder single m st f = Inr st' \<and>
           m \<le> int (folder_count f (selected_artworks st'))"
proof -
  let ?needed = "max 0 (m - current_folder_counts st f)"
  let ?to_add = "min (min ?needed (int (length (available_artworks single (selected_art_ids st) f))))
                       (remaining_slots st)"
  have t: "?to_add = ?needed" using n1 n2 by simp
  from step2_folder_result[of m st f single]
  consider (add) ys g' where "0 < ?needed" "int (length ys) = ?to_add"
      "step2_folder single m st f =
               Inr ((add_selected ''min_requirement'' st (map (\<lambda>a. (a, f)) ys))
                      \<lparr>remaining_slots := remaining_slots st - ?to_add,
                       current_folder_counts :=
                         (current_folder_counts st)(f := current_folder_counts st f + ?to_add),
                       rng_state := g'\<rparr>)"
    | (skip) "\<not> (0 < ?needed \<and> 0 < remaining_slots st \<and> 0 < ?to_add)"
      "step2_folder single m st f = Inr st"
    by blast
  then show ?thesis
  proof cases
    case add
    have "int (folder_count f (selected_artworks (add_selected ''min_requirement'' st (map (\<lambda>a. (a, f)) ys)))) =
            int (folder_count f (selected_artworks st)) + ?needed"
      using add(2) t by (simp add: add_selected_def folder_count_append folder_count_new[OF f])
    then show ?thesis using add c by auto
  next
    case skip
    then have "?needed = 0" using n2 t by linarith
    then show ?thesis using skip c by auto
  qed
qed

lemma names_split:
  assumes "f \<in> set search_folder_names"
  shows "\<exists>post. search_folder_names = takeWhile (\<lambda>x. x \<noteq> f) search_folder_names @ f # post"
proof -
  obtain pre post where s: "search_folder_names = pre @ f # post" and n: "f \<notin> set pre"
    using split_list_first[OF assms] by blast
  have "takeWhile (\<lambda>x. x \<noteq> f) (pre @ f # post) = pre"
    using n by (induction pre) auto
  with s show ?thesis by metis
qed

text \<open>
  C3, counterexample. Three rows of the single folder \<open>A\<close>, target 2, minimum 1: one
  candidate would do and two slots are free, but step 2 selects nothing, since \<open>A\<close> is
  not one of the six folder names of line 114; both records of the returned selection
  come from step 4.
\<close>

theorem min_per_search_counterexample:
  "map_sum id (\<lambda>st. (folder_count ''A'' (selected_artworks st), remaining_slots st))
     (step2 (single_folder_artworks (analyze_rows [(1, ''A''), (2, ''A''), (3, ''A'')])) 1
        (start_state [] [(1, ''A''), (2, ''A''), (3, ''A'')] 2)) = Inr (0, 2) \<and>
   available_artworks (single_folder_artworks (analyze_rows [(1, ''A''), (2, ''A''), (3, ''A'')]))
     {} ''A'' = [1, 2, 3] \<and>
   map_sum id (map selection_reason)
     (analyze_and_create_subset [] [(1, ''A''), (2, ''A''), (3, ''A'')] 2 1) =
     Inr [''fill_to_target'', ''fill_to_target'']"
  by code_simp

text \<open>
  C3, amended. For every folder of the fixed list \<open>search_1\<close> to \<open>search_6\<close>: if, when
  its turn comes in step 2, its shortfall is covered by its unselected single-folder
  artworks and by the free slots, then after step 2 at least \<open>min_per_search\<close> selected
  records name the folder. The records selected before step 2 are taken to list each
  folder once.
\<close>

theorem min_per_search_met:
  assumes "f \<in> set search_folder_names"
    and "deduplicated (selected_artworks st)"
    and "quota_feasible single min_per_search st f"
  shows "\<exists>st2. step2 single min_per_search st = Inr st2 \<and>
           min_per_search \<le> int (folder_count f (selected_artworks st2))"
proof -
  let ?body = "step2_folder single min_per_search"
  let ?pre = "takeWhile (\<lambda>x. x \<noteq> f) search_folder_names"
  let ?s0 = "st\<lparr>current_folder_counts := count_folders (selected_artworks st)\<rparr>"
  obtain post where split: "search_folder_names = ?pre @ f # post"
    using names_split[OF assms(1)] by blast
  obtain s where s: "for_each ?body ?pre ?s0 = Inr s"
    and n1: "max 0 (min_per_search - current_folder_counts s f) \<le>
             int (length (available_artworks single (selected_art_ids s) f))"
    and n2: "max 0 (min_per_search - current_folder_counts s f) \<le> remaining_slots s"
    using assms(3) unfolding quota_feasible_def turn_state_def Let_def
    by (auto split: sum.splits)
  have "f \<notin> set ?pre" by (auto dest: set_takeWhileD)
  from for_each_step2_other[OF this s]
  have "current_folder_counts s f \<le> int (folder_count f (selected_artworks s))"
    using count_folders_deduplicated[OF assms(2), of f] by simp
  from step2_folder_own[OF assms(1) n1 n2 this]
  obtain s' where s': "?body s f = Inr s'"
    and m: "min_per_search \<le> int (folder_count f (selected_artworks s'))"
    by blast
  obtain st2 where st2: "for_each ?body post s' = Inr st2"
    and mono: "folder_count f (selected_artworks s') \<le> folder_count f (selected_artworks st2)"
    using for_each_step2_total[of single min_per_search post s' f] by blast
  have "for_each ?body (?pre @ f # post) ?s0 = Inr st2"
    using s s' st2 by (simp add: for_each_append)
  then have "step2 single min_per_search st = Inr st2"
    unfolding step2_def using split by simp
  with m mono show ?thesis by auto
qed

theorem min_per_search_met_witness:
  "''search_2'' \<in> set search_folder_names \<and>
   deduplicated (selected_artworks (start_state [3, 1, 4]
      [(1, ''search_1''), (2, ''search_1;search_3''), (3, ''search_2''), (4, ''search_2'')] 4)) \<and>
   quota_feasible (single_folder_artworks (analyze_rows
      [(1, ''search_1''), (2, ''search_1;search_3''), (3, ''search_2''), (4, ''search_2'')])) 1
     (start_state [3, 1, 4]
      [(1, ''search_1''), (2, ''search_1;search_3''), (3, ''search_2''), (4, ''search_2'')] 4) ''search_2'' \<and>
   (\<exists>st2. step2 (single_folder_artworks (analyze_rows
      [(1, ''search_1''), (2, ''search_1;search_3''), (3, ''search_2''), (4, ''search_2'')])) 1
     (start_state [3, 1, 4]
      [(1, ''search_1''), (2, ''search_1;search_3''), (3, ''search_2''), (4, ''search_2'')] 4) = Inr st2 \<and>
      1 \<le> int (folder_count ''search_2'' (selected_artworks st2)))"
proof -
  have a: "''search_2'' \<in> set search_folder_names"
    by code_simp
  have b: "deduplicated (selected_artworks (start_state [3, 1, 4]
      [(1, ''search_1''), (2, ''search_1;search_3''), (3, ''search_2''), (4, ''search_2'')] 4))"
    by code_simp
  have c: "quota_feasible (single_folder_artworks (analyze_rows
      [(1, ''search_1''), (2, ''search_1;search_3''), (3, ''search_2''), (4, ''search_2'')])) 1
     (start_state [3, 1, 4]
      [(1, ''search_1''), (2, ''search_1;search_3''), (3, ''search_2''), (4, ''search_2'')] 4) ''search_2''"
    by code_simp
  have d: "(\<exists>st2. step2 (single_folder_artworks (analyze_rows
      [(1, ''search_1''), (2, ''search_1;search_3''), (3, ''search_2''), (4, ''search_2'')])) 1
     (start_state [3, 1, 4]
      [(1, ''search_1''), (2, ''search_1;search_3''), (3, ''search_2''), (4, ''search_2'')] 4) = Inr st2 \<and>
      1 \<le> int (folder_count ''search_2'' (selected_artworks st2)))"
    using min_per_search_met [OF a b c] .
  show ?thesis
    by (rule conjI[OF a conjI[OF b conjI[OF c d]]])
qed

end
